theory Spec2Isabelle
  imports Main "HOL-Library.Extended_Nat"
begin

section \<open>Python values, exceptions and string operations\<close>

text \<open>
  The exceptions the modelled code can raise. \<open>KeyError\<close> carries the missing key,
  as Python's does.
\<close>

datatype error = KeyError string | IndexError | ValueError

text \<open>
  \<^verbatim>\<open>s.split(sep)\<close> for a non-empty separator: the string is scanned from the left, every
  occurrence of \<open>sep\<close> ends the current part and the scan goes on after it. The result
  is never empty. \<open>acc\<close> is the part read so far. (Python raises on an empty separator;
  every separator of the program is a non-empty constant, and an empty one is never
  matched here.)
\<close>

function split_on :: "string \<Rightarrow> string \<Rightarrow> string \<Rightarrow> string list" where
  "split_on sep acc [] = [acc]"
| "split_on sep acc (c # cs) =
     (if sep \<noteq> [] \<and> take (length sep) (c # cs) = sep
      then acc # split_on sep [] (drop (length sep) (c # cs))
      else split_on sep (acc @ [c]) cs)"
  by pat_completeness auto
termination
  by (relation "measure (\<lambda>(sep, acc, s). length s)") auto

definition split :: "string \<Rightarrow> string \<Rightarrow> string list" where
  "split sep s = split_on sep [] s"

text \<open>
  \<^verbatim>\<open>re.split(' IF | IF', line)\<close>: at each position the first alternative \<^verbatim>\<open>' IF '\<close> is
  tried before the second \<^verbatim>\<open>' IF'\<close>; matches are taken leftmost and do not overlap.
\<close>

function re_split_IF_on :: "string \<Rightarrow> string \<Rightarrow> string list" where
  "re_split_IF_on acc [] = [acc]"
| "re_split_IF_on acc (c # cs) =
     (if take 4 (c # cs) = '' IF '' then acc # re_split_IF_on [] (drop 4 (c # cs))
      else if take 3 (c # cs) = '' IF'' then acc # re_split_IF_on [] (drop 3 (c # cs))
      else re_split_IF_on (acc @ [c]) cs)"
  by pat_completeness auto
termination
  by (relation "measure (\<lambda>(acc, s). length s)") auto

definition re_split_IF :: "string \<Rightarrow> string list" where
  "re_split_IF line = re_split_IF_on [] line"

text \<open>
  \<^verbatim>\<open>s.strip()\<close> removes whitespace at both ends. Strings are byte strings here, and the
  whitespace characters are the ASCII ones Python strips: codes 9 to 13 and 28 to 32.
\<close>

definition is_space :: "char \<Rightarrow> bool" where
  "is_space c = (let n = (of_char c :: nat) in (9 \<le> n \<and> n \<le> 13) \<or> (28 \<le> n \<and> n \<le> 32))"

definition strip :: "string \<Rightarrow> string" where
  "strip s = rev (dropWhile is_space (rev (dropWhile is_space s)))"

text \<open>
  A Python \<^verbatim>\<open>dict\<close> whose iteration order matters is an association list in insertion
  order; assigning to a key that is present replaces its value in place.
\<close>

fun dict_set :: "('k \<times> 'v) list \<Rightarrow> 'k \<Rightarrow> 'v \<Rightarrow> ('k \<times> 'v) list" where
  "dict_set [] k v = [(k, v)]"
| "dict_set ((k', v') # d) k v = (if k' = k then (k, v) # d else (k', v') # dict_set d k v)"

section \<open>DataHandler: attribute table and formula compiler\<close>

text \<open>
  The fields of \<^verbatim>\<open>DataHandler\<close> that the compiler reads: \<^verbatim>\<open>attributes\<close>, the list of
  value lists, one per attribute line, and \<^verbatim>\<open>values\<close>, the dictionary from a label to
  its bit.
\<close>

record data_handler =
  attributes :: "string list list"
  dh_values :: "string \<rightharpoonup> int"

definition new_data_handler :: data_handler where
  "new_data_handler = \<lparr>attributes = [], dh_values = Map.empty\<rparr>"

text \<open>
  The body of the loop of \<^verbatim>\<open>read_attributes\<close> on one (stripped) line:
  \<^verbatim>\<open>line.split(": ")[1].split(", ")\<close>, the first value is registered with bit 1, the
  second with bit 0, and the whole value list is appended to \<^verbatim>\<open>attributes\<close>.
\<close>

definition read_attribute_line :: "data_handler \<Rightarrow> string \<Rightarrow> error + data_handler" where
  "read_attribute_line dh line =
     (case split '': '' line of
        _ # rest # _ \<Rightarrow>
          (case split '', '' rest of
             v0 # v1 # vs \<Rightarrow>
               Inr (dh\<lparr>dh_values := ((dh_values dh)(v0 \<mapsto> 1))(v1 \<mapsto> 0),
                       attributes := attributes dh @ [v0 # v1 # vs]\<rparr>)
           | _ \<Rightarrow> Inl IndexError)
      | _ \<Rightarrow> Inl IndexError)"

fun read_attribute_lines :: "data_handler \<Rightarrow> string list \<Rightarrow> error + data_handler" where
  "read_attribute_lines dh [] = Inr dh"
| "read_attribute_lines dh (line # lines) =
     (case read_attribute_line dh line of
        Inl e \<Rightarrow> Inl e
      | Inr dh' \<Rightarrow> read_attribute_lines dh' lines)"

text \<open>\<^verbatim>\<open>read_attributes\<close> on the lines of the file, each stripped first.\<close>

definition read_attributes :: "data_handler \<Rightarrow> string list \<Rightarrow> error + data_handler" where
  "read_attributes dh lines = read_attribute_lines dh (map strip lines)"

text \<open>
  \<^verbatim>\<open>return_integer\<close>: the 1-based position of the first attribute whose value list
  contains the value, 0 when there is none. \<open>index\<close> is the position of the head of the
  list still to scan.
\<close>

fun return_integer_from :: "int \<Rightarrow> string list list \<Rightarrow> string \<Rightarrow> int" where
  "return_integer_from index [] v = 0"
| "return_integer_from index (item # items) v =
     (if v \<in> set item then index else return_integer_from (index + 1) items v)"

definition return_integer :: "data_handler \<Rightarrow> string \<Rightarrow> int" where
  "return_integer dh v = return_integer_from 1 (attributes dh) v"

text \<open>
  The block that \<^verbatim>\<open>make_constraints\<close> runs on each literal (it is written out four
  times in the source, twice for a one-literal part and twice for a longer one): the
  literal is split at spaces; with exactly two parts the label is the second and the
  sign is flipped when its bit is 1, with any other number of parts the label is the
  first and the sign is flipped when its bit is 0. \<^verbatim>\<open>self.values[value]\<close> raises
  \<^verbatim>\<open>KeyError\<close> for a label that is not a key.
\<close>

definition literal_integer :: "data_handler \<Rightarrow> string \<Rightarrow> error + int" where
  "literal_integer dh literal =
     (let attribute_value = split '' '' literal in
      if length attribute_value = 2 then
        (let v = attribute_value ! 1; integer = return_integer dh v in
         case dh_values dh v of
           None \<Rightarrow> Inl (KeyError v)
         | Some bit_value \<Rightarrow> Inr (if bit_value = 1 then - integer else integer))
      else
        (case attribute_value of
           [] \<Rightarrow> Inl IndexError
         | v # _ \<Rightarrow>
             (let integer = return_integer dh v in
              case dh_values dh v of
                None \<Rightarrow> Inl (KeyError v)
              | Some bit_value \<Rightarrow> Inr (if bit_value = 0 then - integer else integer))))"

text \<open>
  \<^verbatim>\<open>make_constraints\<close> keeps ONE list object \<^verbatim>\<open>clause\<close> for the whole call: it is
  cleared at the start of each \<^verbatim>\<open>AND\<close> part, filled by a part of several literals,
  and then appended to \<^verbatim>\<open>clause_list\<close> itself, not a copy of it. An entry of
  \<^verbatim>\<open>clause_list\<close> is therefore either a list of its own (\<^verbatim>\<open>new_clause\<close>, built for a
  one-literal part) or a reference to the shared object, whose content is whatever the
  last clearing and filling left there.
\<close>

datatype clause_ref = Own "int list" | Shared

text \<open>The loop over the literals of a one-literal part: each appends \<^verbatim>\<open>[integer]\<close>.\<close>

fun single_literals :: "data_handler \<Rightarrow> string list \<Rightarrow> clause_ref list \<Rightarrow> error + clause_ref list" where
  "single_literals dh [] clause_list = Inr clause_list"
| "single_literals dh (literal # literals) clause_list =
     (case literal_integer dh literal of
        Inl e \<Rightarrow> Inl e
      | Inr integer \<Rightarrow> single_literals dh literals (clause_list @ [Own [integer]]))"

text \<open>The loop over the literals of a longer part: each is appended to the shared \<^verbatim>\<open>clause\<close>.\<close>

fun several_literals :: "data_handler \<Rightarrow> string list \<Rightarrow> int list \<Rightarrow> error + int list" where
  "several_literals dh [] clause = Inr clause"
| "several_literals dh (literal # literals) clause =
     (case literal_integer dh literal of
        Inl e \<Rightarrow> Inl e
      | Inr integer \<Rightarrow> several_literals dh literals (clause @ [integer]))"

text \<open>
  The loop over the \<^verbatim>\<open>AND\<close> parts. The state is the content of the shared \<^verbatim>\<open>clause\<close>
  and \<^verbatim>\<open>clause_list\<close>.
\<close>

fun clause_loop ::
  "data_handler \<Rightarrow> string list \<Rightarrow> int list \<times> clause_ref list \<Rightarrow> error + int list \<times> clause_ref list" where
  "clause_loop dh [] s = Inr s"
| "clause_loop dh (a_clause # clauses) (clause, clause_list) =
     (let cleared = ([] :: int list); literals = split '' OR '' a_clause in
      if length literals = 1 then
        (case single_literals dh literals clause_list of
           Inl e \<Rightarrow> Inl e
         | Inr clause_list' \<Rightarrow>
             clause_loop dh clauses
               (cleared, if cleared \<noteq> [] then clause_list' @ [Shared] else clause_list'))
      else
        (case several_literals dh literals cleared of
           Inl e \<Rightarrow> Inl e
         | Inr clause' \<Rightarrow>
             clause_loop dh clauses
               (clause', if clause' \<noteq> [] then clause_list @ [Shared] else clause_list)))"

text \<open>What the caller sees in an entry of the returned list.\<close>

fun deref :: "int list \<Rightarrow> clause_ref \<Rightarrow> int list" where
  "deref clause (Own c) = c"
| "deref clause Shared = clause"

definition make_constraints :: "data_handler \<Rightarrow> string \<Rightarrow> error + int list list" where
  "make_constraints dh line =
     (case clause_loop dh (split '' AND '' line) ([], []) of
        Inl e \<Rightarrow> Inl e
      | Inr (clause, clause_list) \<Rightarrow> Inr (map (deref clause) clause_list))"

text \<open>
  The loop body of \<^verbatim>\<open>read_qualitative_logic\<close> on one stripped line. \<^verbatim>\<open>values[1]\<close> is read
  before anything is known about the length of \<^verbatim>\<open>values\<close>; an empty \<^verbatim>\<open>values[1]\<close> is
  popped; the condition is compiled only when exactly two elements remain. The rule
  keeps the line as its name, the compiled tiers in the order of the \<^verbatim>\<open>BT\<close> split, and
  the compiled condition or \<^verbatim>\<open>None\<close>.
\<close>

record qualitative_choice_logic =
  qcl_name :: string
  qcl_constraints :: "int list list list"
  qcl_condition :: "int list list option"

fun compile_tiers :: "data_handler \<Rightarrow> string list \<Rightarrow> int list list list \<Rightarrow> error + int list list list" where
  "compile_tiers dh [] constraints = Inr constraints"
| "compile_tiers dh (clause # clauses) constraints =
     (case make_constraints dh clause of
        Inl e \<Rightarrow> Inl e
      | Inr clause_list \<Rightarrow> compile_tiers dh clauses (constraints @ [clause_list]))"

definition read_qualitative_line :: "data_handler \<Rightarrow> string \<Rightarrow> error + qualitative_choice_logic" where
  "read_qualitative_line dh line =
     (case re_split_IF line of
        logic # condition # others \<Rightarrow>
          (let vals = (if condition = [] then logic # others else logic # condition # others) in
           case (if length vals = 2 then map_sum id Some (make_constraints dh (vals ! 1))
                 else Inr None) of
             Inl e \<Rightarrow> Inl e
           | Inr condition_constraint \<Rightarrow>
               (case compile_tiers dh (split '' BT '' logic) [] of
                  Inl e \<Rightarrow> Inl e
                | Inr constraints \<Rightarrow>
                    Inr \<lparr>qcl_name = line, qcl_constraints = constraints,
                         qcl_condition = condition_constraint\<rparr>))
      | _ \<Rightarrow> Inl IndexError)"

fun read_qualitative_lines ::
  "data_handler \<Rightarrow> string list \<Rightarrow> qualitative_choice_logic list \<Rightarrow> error + qualitative_choice_logic list" where
  "read_qualitative_lines dh [] qualitative_objects = Inr qualitative_objects"
| "read_qualitative_lines dh (line # lines) qualitative_objects =
     (case read_qualitative_line dh line of
        Inl e \<Rightarrow> Inl e
      | Inr qualitative_logic \<Rightarrow>
          read_qualitative_lines dh lines (qualitative_objects @ [qualitative_logic]))"

text \<open>\<^verbatim>\<open>read_qualitative_logic\<close> on the lines of the file, each stripped first.\<close>

definition read_qualitative_logic ::
  "data_handler \<Rightarrow> string list \<Rightarrow> error + qualitative_choice_logic list" where
  "read_qualitative_logic dh lines = read_qualitative_lines dh (map strip lines) []"

section \<open>The SAT solver at the boundary\<close>

text \<open>
  The program hands clause lists to an external solver and uses two of its operations:
  \<^verbatim>\<open>solve()\<close>, whether the clauses have a model, and \<^verbatim>\<open>enum_models()\<close>, all models.
  A model is a vector with one signed literal per variable \<open>1, \<dots>, n\<close>, in this
  order, where \<open>n\<close> is the largest variable of the clauses. The solver is modelled by
  what it decides, through exhaustive search; the order in which models are listed is
  not used by the program.
\<close>

fun all_vectors :: "nat \<Rightarrow> int list list" where
  "all_vectors 0 = [[]]"
| "all_vectors (Suc n) =
     concat (map (\<lambda>m. [m @ [int (Suc n)], m @ [- int (Suc n)]]) (all_vectors n))"

definition nof_vars :: "int list list \<Rightarrow> nat" where
  "nof_vars cs = fold (\<lambda>l n. max n (nat \<bar>l\<bar>)) (concat cs) 0"

definition is_model :: "int list \<Rightarrow> int list list \<Rightarrow> bool" where
  "is_model m cs = list_all (\<lambda>c. list_ex (\<lambda>l. l \<in> set m) c) cs"

definition enum_models :: "int list list \<Rightarrow> int list list" where
  "enum_models cs = filter (\<lambda>m. is_model m cs) (all_vectors (nof_vars cs))"

definition solve :: "int list list \<Rightarrow> bool" where
  "solve cs = (enum_models cs \<noteq> [])"

section \<open>Object\<close>

text \<open>
  A penalty is read from the rule file as text and stays a string inside the rule; the
  scorer replaces it by the integer 0 when the rule holds. \<^verbatim>\<open>int(penalty)\<close> accepts an
  integer as it is and parses a string: blanks around it, an optional sign, then
  decimal digits, where single underscores may separate digits. The blanks \<^verbatim>\<open>int\<close> skips
  in an ASCII text are the codes 9 to 13 and 32 only (fewer than \<^verbatim>\<open>strip\<close> removes), and a
  text of more than 4300 digits is refused (the interpreter's default limit). Characters
  beyond ASCII count as neither blanks nor digits.
\<close>

datatype pyval = PyInt int | PyStr string

definition digit_val :: "char \<Rightarrow> nat option" where
  "digit_val c =
     (let n = (of_char c :: nat) in if 48 \<le> n \<and> n \<le> 57 then Some (n - 48) else None)"

fun digits_value :: "nat \<Rightarrow> bool \<Rightarrow> string \<Rightarrow> nat option" where
  "digits_value acc prev_digit [] = (if prev_digit then Some acc else None)"
| "digits_value acc prev_digit (c # cs) =
     (if c = CHR ''_'' then (if prev_digit then digits_value acc False cs else None)
      else (case digit_val c of
              None \<Rightarrow> None
            | Some d \<Rightarrow> digits_value (10 * acc + d) True cs))"

definition is_int_space :: "char \<Rightarrow> bool" where
  "is_int_space c = (let n = (of_char c :: nat) in (9 \<le> n \<and> n \<le> 13) \<or> n = 32)"

definition parse_digits :: "string \<Rightarrow> error + int" where
  "parse_digits body =
     (case digits_value 0 False body of
        None \<Rightarrow> Inl ValueError
      | Some n \<Rightarrow>
          (if 4300 < length (filter (\<lambda>c. digit_val c \<noteq> None) body) then Inl ValueError
           else Inr (int n)))"

definition int_of_string :: "string \<Rightarrow> error + int" where
  "int_of_string s =
     (case rev (dropWhile is_int_space (rev (dropWhile is_int_space s))) of
        [] \<Rightarrow> Inl ValueError
      | c # cs \<Rightarrow>
          (if c = CHR ''-'' then map_sum id uminus (parse_digits cs)
           else if c = CHR ''+'' then parse_digits cs
           else parse_digits (c # cs)))"

fun py_int :: "pyval \<Rightarrow> error + int" where
  "py_int (PyInt i) = Inr i"
| "py_int (PyStr s) = int_of_string s"

record pobject =
  obj_name :: string
  encoding :: string
  obj_values :: "string list"
  integers :: "int list"
  total_penalty :: int

text \<open>\<^verbatim>\<open>Object(name, encoding, values, integers)\<close>: the accumulator starts at 0.\<close>

definition new_object :: "string \<Rightarrow> string \<Rightarrow> string list \<Rightarrow> int list \<Rightarrow> pobject" where
  "new_object name enc vals ints =
     \<lparr>obj_name = name, encoding = enc, obj_values = vals, integers = ints, total_penalty = 0\<rparr>"

definition return_integer_values :: "pobject \<Rightarrow> int list" where
  "return_integer_values ob = integers ob"

definition return_test_integers :: "pobject \<Rightarrow> int list list" where
  "return_test_integers ob = map (\<lambda>integer. [integer]) (integers ob)"

definition add_penalty :: "pobject \<Rightarrow> pyval \<Rightarrow> error + pobject" where
  "add_penalty ob penalty =
     (case py_int penalty of
        Inl e \<Rightarrow> Inl e
      | Inr v \<Rightarrow> Inr (ob\<lparr>total_penalty := total_penalty ob + v\<rparr>))"

definition get_total_penalty :: "pobject \<Rightarrow> int" where
  "get_total_penalty ob = total_penalty ob"

definition get_name :: "pobject \<Rightarrow> string" where
  "get_name ob = obj_name ob"

text \<open>
  Objects are shared by reference between the lists of the problem and mutated through
  them, so they live in a store from addresses to objects and the lists hold addresses.
\<close>

type_synonym store = "nat \<Rightarrow> pobject"

section \<open>PenaltyLogic\<close>

record penalty_logic =
  pl_name :: string
  pl_constraint :: "int list list"
  pl_penalty :: pyval

text \<open>
  \<^verbatim>\<open>PenaltyLogic.test\<close>: the rule's clauses followed by one unit clause per integer of
  the object go to the solver; the penalty is 0 when they are satisfiable and the
  rule's own otherwise; it is added to the object and returned.
\<close>

definition PenaltyLogic_test :: "penalty_logic \<Rightarrow> nat \<Rightarrow> store \<Rightarrow> error + pyval \<times> store" where
  "PenaltyLogic_test rule r h =
     (let test_formula = pl_constraint rule @ return_test_integers (h r);
          penalty = pl_penalty rule
      in if solve test_formula then
           (let penalty = PyInt 0 in
            case add_penalty (h r) penalty of
              Inl e \<Rightarrow> Inl e
            | Inr ob \<Rightarrow> Inr (penalty, h(r := ob)))
         else
           (case add_penalty (h r) penalty of
              Inl e \<Rightarrow> Inl e
            | Inr ob \<Rightarrow> Inr (penalty, h(r := ob))))"

section \<open>QualitativeChoiceLogic\<close>

text \<open>\<^verbatim>\<open>min\<close> of a non-empty list.\<close>

definition py_min :: "nat list \<Rightarrow> nat" where
  "py_min xs = fold min (tl xs) (hd xs)"

text \<open>
  \<^verbatim>\<open>QualitativeChoiceLogic.test\<close>: every tier and the condition, if there is one, are
  extended by the unit clauses of the object and solved; \<^verbatim>\<open>logic_values\<close> maps the
  1-based tier index to the answer, \<^verbatim>\<open>true_logics\<close> lists the indices that hold. The
  result is an integer or \<^verbatim>\<open>float('inf')\<close>.
\<close>

definition QualitativeChoiceLogic_test :: "qualitative_choice_logic \<Rightarrow> pobject \<Rightarrow> enat" where
  "QualitativeChoiceLogic_test rule test_object =
     (let condition_formula = qcl_condition rule;
          object_test_integers = return_test_integers test_object;
          pysat_formulas = map (\<lambda>logic. logic @ object_test_integers) (qcl_constraints rule);
          condition_value =
            (case condition_formula of
               None \<Rightarrow> False
             | Some c \<Rightarrow> solve (c @ object_test_integers));
          logic_values = map (\<lambda>(index, pysat_formula). (index, solve pysat_formula))
                             (List.enumerate 1 pysat_formulas);
          true_logics = map fst (filter snd logic_values)
      in if condition_value then
           (if true_logics \<noteq> [] then enat (py_min true_logics) else \<infinity>)
         else if condition_formula \<noteq> None then \<infinity>
         else if true_logics \<noteq> [] then enat (py_min true_logics) else \<infinity>)"

section \<open>PreferenceProblem\<close>

text \<open>
  A table is its column names and its rows. A row of the penalty table is the object's
  name, one penalty per rule and the total; a row of the qualitative table is the
  object's name and one degree per rule.
\<close>

type_synonym penalty_table = "string list \<times> (string \<times> pyval list \<times> int) list"
type_synonym qualitative_table = "string list \<times> (string \<times> enat list) list"

record preference_problem =
  heap :: store
  objects :: "nat list"
  hard_constraints :: "int list list"
  penalty_logics :: "penalty_logic list"
  qualitative_logics :: "qualitative_choice_logic list"
  object_qualitative_values :: "(string \<times> nat list) list"
  feasible_objects :: "nat list"
  penalty_logic_table :: penalty_table
  qualitative_choice_table :: qualitative_table

text \<open>
  \<^verbatim>\<open>check_feasibility\<close>: all models of the hard constraints are collected, and every
  object whose integer list is one of them is appended to \<^verbatim>\<open>feasible_objects\<close>.
\<close>

definition check_feasibility :: "preference_problem \<Rightarrow> preference_problem" where
  "check_feasibility st =
     (let valid_objects = enum_models (hard_constraints st) in
      st\<lparr>feasible_objects := feasible_objects st @
            filter (\<lambda>r. return_integer_values (heap st r) \<in> set valid_objects) (objects st)\<rparr>)"

text \<open>\<^verbatim>\<open>str(n)\<close> of a natural number, for the formatted messages.\<close>

fun str_nat :: "nat \<Rightarrow> string" where
  "str_nat n =
     (if n < 10 then [char_of (48 + n)]
      else str_nat (n div 10) @ [char_of (48 + n mod 10)])"

declare str_nat.simps [simp del]

text \<open>\<^verbatim>\<open>return_feasibility\<close>: the line it prints.\<close>

definition return_feasibility :: "preference_problem \<Rightarrow> string" where
  "return_feasibility st =
     (if feasible_objects st \<noteq> [] then
        ''Yes, there are '' @ str_nat (length (feasible_objects st)) @ '' feasible objects.''
      else ''No feasible objects.'')"

definition make_penalty_table_columns :: "preference_problem \<Rightarrow> string list" where
  "make_penalty_table_columns st =
     [''encoding''] @ map pl_name (penalty_logics st) @ [''total penalty'']"

definition make_qualitative_table_columns :: "preference_problem \<Rightarrow> string list" where
  "make_qualitative_table_columns st = [''encoding''] @ map qcl_name (qualitative_logics st)"

text \<open>
  \<^verbatim>\<open>PrettyTable(columns)\<close>, a library class: it raises \<^verbatim>\<open>ValueError\<close> when a column name
  occurs twice, and is an empty table otherwise. (\<^verbatim>\<open>add_row\<close> raises on a row whose length
  differs from the number of columns; every row built here has one entry per column.)
\<close>

definition PrettyTable :: "string list \<Rightarrow> error + string list \<times> 'row list" where
  "PrettyTable columns = (if distinct columns then Inr (columns, []) else Inl ValueError)"

text \<open>
  \<^verbatim>\<open>apply_penalty_logic\<close>: the table is created first; then, for each feasible object,
  every rule is tested in turn (which adds to the object's total), and the row ends
  with the total reached.
\<close>

fun penalty_row :: "penalty_logic list \<Rightarrow> nat \<Rightarrow> store \<Rightarrow> pyval list \<Rightarrow> error + pyval list \<times> store" where
  "penalty_row [] r h row = Inr (row, h)"
| "penalty_row (penalty_logic # rules) r h row =
     (case PenaltyLogic_test penalty_logic r h of
        Inl e \<Rightarrow> Inl e
      | Inr (penalty, h') \<Rightarrow> penalty_row rules r h' (row @ [penalty]))"

fun penalty_rows ::
  "penalty_logic list \<Rightarrow> nat list \<Rightarrow> store \<Rightarrow> (string \<times> pyval list \<times> int) list
   \<Rightarrow> error + (string \<times> pyval list \<times> int) list \<times> store" where
  "penalty_rows rules [] h rows = Inr (rows, h)"
| "penalty_rows rules (r # rs) h rows =
     (case penalty_row rules r h [] of
        Inl e \<Rightarrow> Inl e
      | Inr (row, h') \<Rightarrow>
          penalty_rows rules rs h'
            (rows @ [(get_name (h r), row, get_total_penalty (h' r))]))"

definition apply_penalty_logic :: "preference_problem \<Rightarrow> error + penalty_table \<times> preference_problem" where
  "apply_penalty_logic st =
     (let columns = make_penalty_table_columns st in
      case PrettyTable columns of
        Inl e \<Rightarrow> Inl e
      | Inr (field_names, no_rows) \<Rightarrow>
          (case penalty_rows (penalty_logics st) (feasible_objects st) (heap st) no_rows of
             Inl e \<Rightarrow> Inl e
           | Inr (rows, h') \<Rightarrow> Inr ((field_names, rows), st\<lparr>heap := h'\<rparr>)))"

text \<open>
  \<^verbatim>\<open>apply_qualitative_choice_logic\<close>: the table is created first; the row shows the
  degree as the rule returns it; the vector kept in \<^verbatim>\<open>object_qualitative_values\<close> under
  the object's name has 10000 in the place of infinity.
\<close>

definition stored_degree :: "enat \<Rightarrow> nat" where
  "stored_degree v = (case v of enat n \<Rightarrow> n | \<infinity> \<Rightarrow> 10000)"

fun qualitative_row ::
  "qualitative_choice_logic list \<Rightarrow> pobject \<Rightarrow> enat list \<times> nat list \<Rightarrow> enat list \<times> nat list" where
  "qualitative_row [] ob acc = acc"
| "qualitative_row (qualitative_logic # rules) ob (row, qualitative_values) =
     (let v = QualitativeChoiceLogic_test qualitative_logic ob in
      qualitative_row rules ob (row @ [v], qualitative_values @ [stored_degree v]))"

fun qualitative_rows ::
  "qualitative_choice_logic list \<Rightarrow> store \<Rightarrow> nat list
   \<Rightarrow> (string \<times> enat list) list \<times> (string \<times> nat list) list
   \<Rightarrow> (string \<times> enat list) list \<times> (string \<times> nat list) list" where
  "qualitative_rows rules h [] acc = acc"
| "qualitative_rows rules h (r # rs) (rows, d) =
     (case qualitative_row rules (h r) ([], []) of
        (row, qualitative_values) \<Rightarrow>
          qualitative_rows rules h rs
            (rows @ [(get_name (h r), row)], dict_set d (get_name (h r)) qualitative_values))"

definition apply_qualitative_choice_logic ::
  "preference_problem \<Rightarrow> error + qualitative_table \<times> preference_problem" where
  "apply_qualitative_choice_logic st =
     (let columns = make_qualitative_table_columns st in
      case PrettyTable columns of
        Inl e \<Rightarrow> Inl e
      | Inr (field_names, no_rows) \<Rightarrow>
          (case qualitative_rows (qualitative_logics st) (heap st) (feasible_objects st)
                  (no_rows, object_qualitative_values st) of
             (rows, d) \<Rightarrow> Inr ((field_names, rows), st\<lparr>object_qualitative_values := d\<rparr>)))"

text \<open>
  The constructor: the fields are set, then feasibility is checked and both tables are
  built, in this order.
\<close>

definition PreferenceProblem_init ::
  "store \<Rightarrow> nat list \<Rightarrow> int list list \<Rightarrow> penalty_logic list \<Rightarrow> qualitative_choice_logic list
   \<Rightarrow> error + preference_problem" where
  "PreferenceProblem_init h objs hard pls qls =
     (let st0 = \<lparr>heap = h, objects = objs, hard_constraints = hard, penalty_logics = pls,
                 qualitative_logics = qls, object_qualitative_values = [],
                 feasible_objects = [], penalty_logic_table = ([], []),
                 qualitative_choice_table = ([], [])\<rparr>;
          st1 = check_feasibility st0
      in case apply_penalty_logic st1 of
           Inl e \<Rightarrow> Inl e
         | Inr (ptable, st2) \<Rightarrow>
             (let st3 = st2\<lparr>penalty_logic_table := ptable\<rparr> in
              case apply_qualitative_choice_logic st3 of
                Inl e \<Rightarrow> Inl e
              | Inr (qtable, st4) \<Rightarrow> Inr (st4\<lparr>qualitative_choice_table := qtable\<rparr>)))"

text \<open>
  \<^verbatim>\<open>random.sample(population, 2)\<close>, a library function: it raises \<^verbatim>\<open>ValueError\<close> when the
  population has fewer than two elements, and otherwise picks a position, replaces it
  in a copy by the last element, and picks among the positions before the last. The
  two numbers the generator draws are the parameter \<open>rnd\<close>.
\<close>

definition sample_two :: "nat \<times> nat \<Rightarrow> 'a list \<Rightarrow> error + 'a \<times> 'a" where
  "sample_two rnd population =
     (let n = length population in
      if n < 2 then Inl ValueError
      else (let j0 = fst rnd mod n;
                pool = population[j0 := population ! (n - 1)];
                j1 = snd rnd mod (n - 1)
            in Inr (population ! j0, pool ! j1)))"

text \<open>
  The functions that print return the lines printed, and the exception that ended them
  if there was one.
\<close>

definition penalty_exemplification :: "nat \<times> nat \<Rightarrow> preference_problem \<Rightarrow> string list \<times> error option" where
  "penalty_exemplification rnd st =
     (case sample_two rnd (feasible_objects st) of
        Inl e \<Rightarrow> ([], Some e)
      | Inr (r1, r2) \<Rightarrow>
          (let object_one = heap st r1; object_two = heap st r2;
               object_one_penalty = get_total_penalty object_one;
               object_two_penalty = get_total_penalty object_two;
               n1 = get_name object_one; n2 = get_name object_two
           in ([''Two randomly selected feasible objects are '' @ n1 @ '' and '' @ n2 @ '','',
                (if object_one_penalty > object_two_penalty then
                   ''and '' @ n2 @ '' is strictly preferred over '' @ n1 @ ''.''
                 else if object_two_penalty > object_one_penalty then
                   ''and '' @ n1 @ '' is strictly preferred over '' @ n2 @ ''.''
                 else n1 @ '' and '' @ n2 @ '' are equivalent.'')], None)))"

text \<open>
  The comparison loop shared by \<^verbatim>\<open>qualitative_exemplification\<close> and
  \<^verbatim>\<open>is_optimal_qualitative_object\<close>: index by index, 1 when the first degree is lower,
  2 when it is higher, 0 otherwise. Reading the second vector past its end raises.
\<close>

fun compare_degrees :: "('a::linorder) list \<Rightarrow> 'a list \<Rightarrow> nat list \<Rightarrow> error + nat list" where
  "compare_degrees [] ys satisfaction_comparison = Inr satisfaction_comparison"
| "compare_degrees (x # xs) [] satisfaction_comparison = Inl IndexError"
| "compare_degrees (x # xs) (y # ys) satisfaction_comparison =
     compare_degrees xs ys
       (satisfaction_comparison @
          [if x \<le> y \<and> x < y then 1 else if x \<ge> y \<and> x > y then 2 else 0])"

text \<open>The four ends of the \<^verbatim>\<open>if\<close> chain on \<^verbatim>\<open>satisfaction_comparison\<close>.\<close>

datatype outcome = FirstPreferred | SecondPreferred | Incomparable | Equal

definition outcome_of :: "nat list \<Rightarrow> outcome" where
  "outcome_of satisfaction_comparison =
     (if 1 \<in> set satisfaction_comparison then
        (if 2 \<in> set satisfaction_comparison then Incomparable else FirstPreferred)
      else if 2 \<in> set satisfaction_comparison then
        (if 1 \<in> set satisfaction_comparison then Incomparable else SecondPreferred)
      else Equal)"

fun outcome_line :: "string \<Rightarrow> string \<Rightarrow> outcome \<Rightarrow> string" where
  "outcome_line n1 n2 Incomparable = ''and '' @ n1 @ '' and '' @ n2 @ '' are incomparable.''"
| "outcome_line n1 n2 FirstPreferred = ''and '' @ n1 @ '' is strictly preferred over '' @ n2 @ ''.''"
| "outcome_line n1 n2 SecondPreferred = ''and '' @ n2 @ '' is strictly preferred over '' @ n1 @ ''.''"
| "outcome_line n1 n2 Equal = ''and '' @ n1 @ '' and '' @ n2 @ '' are equal.''"

text \<open>
  The loop of \<^verbatim>\<open>qualitative_exemplification\<close> over the keys of
  \<^verbatim>\<open>object_qualitative_values\<close>: the vector under the first name, else under the second.
\<close>

fun find_degrees ::
  "string \<Rightarrow> string \<Rightarrow> (string \<times> nat list) list \<Rightarrow> nat list \<times> nat list \<Rightarrow> nat list \<times> nat list" where
  "find_degrees n1 n2 [] acc = acc"
| "find_degrees n1 n2 ((key, v) # d) (one, two) =
     find_degrees n1 n2 d
       (if key = n1 then (v, two) else if key = n2 then (one, v) else (one, two))"

definition qualitative_exemplification ::
  "nat \<times> nat \<Rightarrow> preference_problem \<Rightarrow> string list \<times> error option" where
  "qualitative_exemplification rnd st =
     (case sample_two rnd (feasible_objects st) of
        Inl e \<Rightarrow> ([], Some e)
      | Inr (r1, r2) \<Rightarrow>
          (let n1 = get_name (heap st r1); n2 = get_name (heap st r2);
               first_line = ''Two randomly selected feasible objects are '' @ n1 @ '' and '' @ n2 @ '','';
               (object_one_satisfaction_degrees, object_two_satisfaction_degrees) =
                  find_degrees n1 n2 (object_qualitative_values st) ([], [])
           in case compare_degrees object_one_satisfaction_degrees
                     object_two_satisfaction_degrees [] of
                Inl e \<Rightarrow> ([first_line], Some e)
              | Inr satisfaction_comparison \<Rightarrow>
                  ([first_line, outcome_line n1 n2 (outcome_of satisfaction_comparison)], None)))"

text \<open>
  \<^verbatim>\<open>is_optimal_qualitative_object\<close>: the given vector is compared with every stored one,
  in the order of the dictionary. \<open>loop_breaks\<close> is the \<^verbatim>\<open>if\<close> chain of the loop body:
  only the branch where 2 occurs and 1 does not sets \<^verbatim>\<open>is_optimal = False\<close> and breaks,
  every other branch is \<^verbatim>\<open>continue\<close>.
\<close>

definition loop_breaks :: "nat list \<Rightarrow> bool" where
  "loop_breaks satisfaction_comparison =
     (if 1 \<in> set satisfaction_comparison then
        (if 2 \<in> set satisfaction_comparison then False else False)
      else if 2 \<in> set satisfaction_comparison then
        (if 1 \<in> set satisfaction_comparison then False else True)
      else False)"

fun is_optimal_loop :: "nat list \<Rightarrow> (string \<times> nat list) list \<Rightarrow> error + bool" where
  "is_optimal_loop obj1 [] = Inr True"
| "is_optimal_loop obj1 ((key, obj2) # d) =
     (case compare_degrees obj1 obj2 [] of
        Inl e \<Rightarrow> Inl e
      | Inr satisfaction_comparison \<Rightarrow>
          (if loop_breaks satisfaction_comparison then Inr False
           else is_optimal_loop obj1 d))"

definition is_optimal_qualitative_object :: "preference_problem \<Rightarrow> nat list \<Rightarrow> error + bool" where
  "is_optimal_qualitative_object st obj1 = is_optimal_loop obj1 (object_qualitative_values st)"

text \<open>\<^verbatim>\<open>sep.join(names)\<close>.\<close>

fun join_str :: "string \<Rightarrow> string list \<Rightarrow> string" where
  "join_str sep [] = []"
| "join_str sep [x] = x"
| "join_str sep (x # y # xs) = x @ sep @ join_str sep (y # xs)"

text \<open>
  \<^verbatim>\<open>qualitative_omni_optimization\<close>: every stored vector, in the order of the dictionary,
  is tested with \<^verbatim>\<open>is_optimal_qualitative_object\<close>; the keys of the optimal ones are
  collected and printed on one line.
\<close>

fun optimal_keys ::
  "preference_problem \<Rightarrow> (string \<times> nat list) list \<Rightarrow> string list \<Rightarrow> error + string list" where
  "optimal_keys st [] optimal_objects = Inr optimal_objects"
| "optimal_keys st ((key, obj) # d) optimal_objects =
     (case is_optimal_qualitative_object st obj of
        Inl e \<Rightarrow> Inl e
      | Inr is_optimal \<Rightarrow>
          optimal_keys st d (if is_optimal then optimal_objects @ [key] else optimal_objects))"

definition qualitative_omni_optimization :: "preference_problem \<Rightarrow> string list \<times> error option" where
  "qualitative_omni_optimization st =
     (case optimal_keys st (object_qualitative_values st) [] of
        Inl e \<Rightarrow> ([], Some e)
      | Inr optimal_objects \<Rightarrow>
          ([''All optimal objects: '' @ join_str '', '' optimal_objects], None))"

text \<open>
  Names for what the compiler does with a literal, used to state its properties: the
  token it looks up (the second of exactly two, the first otherwise), the integer it
  produces, the literals of a formula in reading order, the entry a part leaves in
  \<^verbatim>\<open>clause_list\<close>, and the content of the shared list at the end.
\<close>

definition label_token :: "string \<Rightarrow> string" where
  "label_token literal =
     (let attribute_value = split '' '' literal in
      if length attribute_value = 2 then attribute_value ! 1 else hd attribute_value)"

definition literal_value :: "data_handler \<Rightarrow> string \<Rightarrow> int" where
  "literal_value dh literal = (case literal_integer dh literal of Inr i \<Rightarrow> i | Inl _ \<Rightarrow> 0)"

definition literals_of :: "string \<Rightarrow> string list" where
  "literals_of line = concat (map (split '' OR '') (split '' AND '' line))"

definition part_ref :: "data_handler \<Rightarrow> string \<Rightarrow> clause_ref" where
  "part_ref dh p = (case split '' OR '' p of [l] \<Rightarrow> Own [literal_value dh l] | _ \<Rightarrow> Shared)"

definition final_clause :: "data_handler \<Rightarrow> int list \<Rightarrow> string list \<Rightarrow> int list" where
  "final_clause dh c parts =
     (if parts = [] then c
      else (case split '' OR '' (last parts) of [l] \<Rightarrow> [] | ls \<Rightarrow> map (literal_value dh) ls))"

text \<open>
  The text at which a rule line is split, a space followed by \<^verbatim>\<open>IF\<close>, occurs somewhere
  in a string.
\<close>

fun occurs_IF :: "string \<Rightarrow> bool" where
  "occurs_IF [] = False"
| "occurs_IF (c # cs) = (take 3 (c # cs) = '' IF'' \<or> occurs_IF cs)"

text \<open>
  What registration guarantees of the table: every key of \<^verbatim>\<open>values\<close> has bit 0 or 1
  and occurs in the value list of some attribute.
\<close>

definition registered :: "data_handler \<Rightarrow> bool" where
  "registered dh \<longleftrightarrow>
     (\<forall>l b. dh_values dh l = Some b \<longrightarrow>
        (b = 0 \<or> b = 1) \<and> (\<exists>item\<in>set (attributes dh). l \<in> set item))"

text \<open>
  The tier indices (from 1) whose clauses hold together with the unit clauses of the
  object, in increasing order, and the least of them, or infinity when there is none.
\<close>

definition true_tiers :: "qualitative_choice_logic \<Rightarrow> pobject \<Rightarrow> nat list" where
  "true_tiers rule ob =
     filter (\<lambda>i. solve (qcl_constraints rule ! (i - 1) @ return_test_integers ob))
       [1 ..< Suc (length (qcl_constraints rule))]"

definition min_true_tier :: "qualitative_choice_logic \<Rightarrow> pobject \<Rightarrow> enat" where
  "min_true_tier rule ob =
     (if true_tiers rule ob = [] then \<infinity> else enat (Min (set (true_tiers rule ob))))"

text \<open>
  Pareto dominance between two degree vectors: the first is lower at some index and
  higher at none. \<open>qualitative_outcome\<close> is the comparison loop followed by the
  \<^verbatim>\<open>if\<close> chain, as \<^verbatim>\<open>qualitative_exemplification\<close> runs them.
\<close>

definition strictly_preferred :: "('a::linorder) list \<Rightarrow> 'a list \<Rightarrow> bool" where
  "strictly_preferred a b \<longleftrightarrow>
     (\<exists>i<length a. a ! i < b ! i) \<and> \<not> (\<exists>i<length a. a ! i > b ! i)"

definition qualitative_outcome :: "('a::linorder) list \<Rightarrow> 'a list \<Rightarrow> error + outcome" where
  "qualitative_outcome a b = map_sum id outcome_of (compare_degrees a b [])"

text \<open>
  The degree vector of an object under a list of rules: rule by rule, the degree the
  rule gives the object, with 10000 in the place of infinity.
\<close>

definition degree_vector :: "qualitative_choice_logic list \<Rightarrow> pobject \<Rightarrow> nat list" where
  "degree_vector rules ob = map (\<lambda>rule. stored_degree (QualitativeChoiceLogic_test rule ob)) rules"

text \<open>
  What one test of a penalty rule returns and what it adds to the object's total, and
  an object after every rule of a list has been tested on it once.
\<close>

definition applied_penalty :: "penalty_logic \<Rightarrow> pobject \<Rightarrow> int" where
  "applied_penalty rule ob =
     (if solve (pl_constraint rule @ return_test_integers ob) then 0
      else (case py_int (pl_penalty rule) of Inr v \<Rightarrow> v | Inl _ \<Rightarrow> 0))"

definition returned_penalty :: "penalty_logic \<Rightarrow> pobject \<Rightarrow> pyval" where
  "returned_penalty rule ob =
     (if solve (pl_constraint rule @ return_test_integers ob) then PyInt 0 else pl_penalty rule)"

definition scored :: "penalty_logic list \<Rightarrow> pobject \<Rightarrow> pobject" where
  "scored rules ob =
     ob\<lparr>total_penalty := total_penalty ob + sum_list (map (\<lambda>rule. applied_penalty rule ob) rules)\<rparr>"

text \<open>
  The sign vector over the variables 1 to n that a truth assignment determines.
\<close>

definition vector_of :: "(nat \<Rightarrow> bool) \<Rightarrow> nat \<Rightarrow> int list" where
  "vector_of \<sigma> n = map (\<lambda>i. if \<sigma> (Suc i) then int (Suc i) else - int (Suc i)) [0 ..< n]"

section \<open>An example problem\<close>

text \<open>
  Three attributes, as \<^verbatim>\<open>read_attributes\<close> registers them from the lines
  \<^verbatim>\<open>Size: big, small\<close>, \<^verbatim>\<open>Color: red, blue\<close> and \<^verbatim>\<open>Shape: round, square\<close>.
\<close>

definition ex_handler :: data_handler where
  "ex_handler =
     \<lparr>attributes = [[''big'', ''small''], [''red'', ''blue''], [''round'', ''square'']],
      dh_values = [''big'' \<mapsto> 1, ''small'' \<mapsto> 0, ''red'' \<mapsto> 1, ''blue'' \<mapsto> 0,
                   ''round'' \<mapsto> 1, ''square'' \<mapsto> 0]\<rparr>"

text \<open>One attribute whose labels are two words each, from the line \<^verbatim>\<open>Color: dark red, light blue\<close>.\<close>

definition ex_color_handler :: data_handler where
  "ex_color_handler =
     \<lparr>attributes = [[''dark red'', ''light blue'']],
      dh_values = [''dark red'' \<mapsto> 1, ''light blue'' \<mapsto> 0]\<rparr>"

text \<open>Two attributes, from the lines \<^verbatim>\<open>Size: big, small\<close> and \<^verbatim>\<open>Mood: IFFY, calm\<close>.\<close>

definition ex_iffy_handler :: data_handler where
  "ex_iffy_handler =
     \<lparr>attributes = [[''big'', ''small''], [''IFFY'', ''calm'']],
      dh_values = [''big'' \<mapsto> 1, ''small'' \<mapsto> 0, ''IFFY'' \<mapsto> 1, ''calm'' \<mapsto> 0]\<rparr>"

text \<open>
  Two attributes, Size and Color, give four objects; \<open>o1\<close> is small and red, \<open>o3\<close> is big
  and red. The rule \<^verbatim>\<open>blue BT red IF big\<close> has two tiers and a condition.
\<close>

definition ex_rule :: qualitative_choice_logic where
  "ex_rule = \<lparr>qcl_name = ''blue BT red IF big'', qcl_constraints = [[[- 2]], [[2]]],
              qcl_condition = Some [[1]]\<rparr>"

definition ex_o1 :: pobject where
  "ex_o1 = new_object ''o1'' ''01'' [''small'', ''red''] [- 1, 2]"

definition ex_o3 :: pobject where
  "ex_o3 = new_object ''o3'' ''11'' [''big'', ''red''] [1, 2]"

text \<open>
  A problem state in which \<open>o1\<close> and \<open>o3\<close> are the feasible objects and two rules gave
  them the degree vectors \<open>[1, 3]\<close> and \<open>[3, 1]\<close>.
\<close>

definition ex_problem :: preference_problem where
  "ex_problem =
     \<lparr>heap = (\<lambda>r. if r = 1 then ex_o1 else ex_o3), objects = [1, 3],
      hard_constraints = [[2], [- 1, 1], [- 2, 2]], penalty_logics = [],
      qualitative_logics = [],
      object_qualitative_values = [(''o1'', [1, 3]), (''o3'', [3, 1])],
      feasible_objects = [1, 3], penalty_logic_table = ([], []),
      qualitative_choice_table = ([], [])\<rparr>"

text \<open>
  The four objects over Size and Color, two penalty rules (\<^verbatim>\<open>big, 5\<close> and \<^verbatim>\<open>red, 3\<close>,
  the penalties still text), and the state in which the constructor starts the penalty
  pass when the hard constraint is \<^verbatim>\<open>big OR red\<close>: \<open>o0\<close> is infeasible.
\<close>

definition ex_store :: store where
  "ex_store =
     (\<lambda>r. if r = 0 then new_object ''o0'' ''00'' [''small'', ''blue''] [- 1, - 2]
          else if r = 1 then ex_o1
          else if r = 2 then new_object ''o2'' ''10'' [''big'', ''blue''] [1, - 2]
          else ex_o3)"

definition ex_big :: penalty_logic where
  "ex_big = \<lparr>pl_name = ''big'', pl_constraint = [[1]], pl_penalty = PyStr ''5''\<rparr>"

definition ex_red :: penalty_logic where
  "ex_red = \<lparr>pl_name = ''red'', pl_constraint = [[2]], pl_penalty = PyStr ''3''\<rparr>"

definition ex_scoring :: preference_problem where
  "ex_scoring =
     \<lparr>heap = ex_store, objects = [0, 1, 2, 3],
      hard_constraints = [[1, 2], [- 1, 1], [- 2, 2]], penalty_logics = [ex_big, ex_red],
      qualitative_logics = [ex_rule], object_qualitative_values = [],
      feasible_objects = [1, 2, 3], penalty_logic_table = ([], []),
      qualitative_choice_table = ([], [])\<rparr>"

text \<open>
  The rules \<^verbatim>\<open>big BT small IF\<close> and \<^verbatim>\<open>red BT blue IF small\<close>, compiled. Over the four objects
  they give the degree vectors \<open>[2, 2]\<close>, \<open>[2, 1]\<close>, \<open>[1, 10000]\<close> and \<open>[1, 10000]\<close>.
\<close>

definition ex_size_rule :: qualitative_choice_logic where
  "ex_size_rule = \<lparr>qcl_name = ''big BT small IF'', qcl_constraints = [[[1]], [[- 1]]],
                   qcl_condition = None\<rparr>"

definition ex_color_rule :: qualitative_choice_logic where
  "ex_color_rule = \<lparr>qcl_name = ''red BT blue IF small'', qcl_constraints = [[[2]], [[- 2]]],
                    qcl_condition = Some [[- 1]]\<rparr>"

text \<open>
  The problem the constructor builds from the four objects when the hard constraints
  are \<^verbatim>\<open>big\<close> and \<^verbatim>\<open>red\<close> and there are no rules: \<open>o3\<close> alone is feasible.
\<close>

definition ex_single :: preference_problem where
  "ex_single =
     \<lparr>heap = ex_store, objects = [0, 1, 2, 3],
      hard_constraints = [[1], [2], [- 1, 1], [- 2, 2]], penalty_logics = [],
      qualitative_logics = [], object_qualitative_values = [(''o3'', [])],
      feasible_objects = [3], penalty_logic_table = ([''encoding'', ''total penalty''], [(''o3'', [], 0)]),
      qualitative_choice_table = ([''encoding''], [(''o3'', [])])\<rparr>"


section \<open>Strings\<close>

lemma split_on_not_Nil: "split_on sep acc s \<noteq> []"
  by (induction sep acc s rule: split_on.induct) auto

lemma split_on_absent:
  "c \<in> set sep \<Longrightarrow> c \<notin> set s \<Longrightarrow> split_on sep acc s = [acc @ s]"
proof (induction s arbitrary: acc)
  case Nil
  then show ?case by simp
next
  case (Cons x xs)
  have "take (length sep) (x # xs) \<noteq> sep"
  proof
    assume "take (length sep) (x # xs) = sep"
    then have "set sep \<subseteq> set (x # xs)" by (metis set_take_subset)
    with Cons.prems show False by auto
  qed
  with Cons show ?case by simp
qed

lemma split_on_space_first:
  "CHR '' '' \<notin> set m \<Longrightarrow> split_on '' '' acc (m @ CHR '' '' # l) = (acc @ m) # split_on '' '' [] l"
  by (induction m arbitrary: acc) auto

section \<open>The formula compiler\<close>

lemma split_not_Nil: "split sep s \<noteq> []"
  by (simp add: split_def split_on_not_Nil)

lemma literal_integer_known:
  "dh_values dh (label_token l) = Some b \<Longrightarrow>
   literal_integer dh l =
     Inr (if length (split '' '' l) = 2
          then (if b = 1 then - return_integer dh (label_token l) else return_integer dh (label_token l))
          else (if b = 0 then - return_integer dh (label_token l) else return_integer dh (label_token l)))"
  using split_not_Nil [of "'' ''" l]
  by (auto simp: literal_integer_def label_token_def Let_def split: list.splits)

lemma literal_integer_unknown:
  "dh_values dh (label_token l) = None \<Longrightarrow> literal_integer dh l = Inl (KeyError (label_token l))"
  using split_not_Nil [of "'' ''" l]
  by (auto simp: literal_integer_def label_token_def Let_def split: list.splits)

lemma literal_integer_Inr:
  "dh_values dh (label_token l) \<noteq> None \<Longrightarrow> literal_integer dh l = Inr (literal_value dh l)"
  by (auto simp: literal_value_def literal_integer_known)

lemma several_literals_known:
  "\<forall>l\<in>set ls. dh_values dh (label_token l) \<noteq> None \<Longrightarrow>
   several_literals dh ls acc = Inr (acc @ map (literal_value dh) ls)"
  by (induction ls arbitrary: acc) (simp_all add: literal_integer_Inr)

lemma several_literals_unknown:
  "\<exists>l\<in>set ls. dh_values dh (label_token l) = None \<Longrightarrow>
   \<exists>l\<in>set ls. dh_values dh (label_token l) = None \<and>
      several_literals dh ls acc = Inl (KeyError (label_token l))"
proof (induction ls arbitrary: acc)
  case Nil
  then show ?case by simp
next
  case (Cons a ls)
  show ?case
  proof (cases "dh_values dh (label_token a)")
    case None
    then show ?thesis by (simp add: literal_integer_unknown)
  next
    case (Some b)
    with Cons.prems have "\<exists>l\<in>set ls. dh_values dh (label_token l) = None" by auto
    from Cons.IH [OF this, of "acc @ [literal_value dh a]"] Some
    show ?thesis by (auto simp: literal_integer_Inr)
  qed
qed

lemma length_one_conv: "length xs = Suc 0 \<longleftrightarrow> (\<exists>x. xs = [x])"
  by (cases xs) auto

lemma clause_loop_single:
  assumes "split '' OR '' p = [l]" and "dh_values dh (label_token l) = Some b"
  shows "clause_loop dh (p # parts) (c, cl) =
         clause_loop dh parts ([], cl @ [Own [literal_value dh l]])"
proof -
  have "single_literals dh [l] cl = Inr (cl @ [Own [literal_value dh l]])"
    using assms(2) by (simp add: literal_integer_Inr)
  then show ?thesis using assms(1) by (simp del: single_literals.simps)
qed

lemma clause_loop_several:
  assumes "length (split '' OR '' p) \<noteq> 1"
    and "\<forall>l\<in>set (split '' OR '' p). dh_values dh (label_token l) \<noteq> None"
  shows "clause_loop dh (p # parts) (c, cl) =
         clause_loop dh parts (map (literal_value dh) (split '' OR '' p), cl @ [Shared])"
proof -
  have "several_literals dh (split '' OR '' p) [] = Inr (map (literal_value dh) (split '' OR '' p))"
    using several_literals_known [OF assms(2), of "[]"] by simp
  then show ?thesis using assms(1) by (simp add: split_not_Nil)
qed

lemma part_ref_single: "split '' OR '' p = [l] \<Longrightarrow> part_ref dh p = Own [literal_value dh l]"
  by (simp add: part_ref_def)

lemma part_ref_several: "length (split '' OR '' p) \<noteq> 1 \<Longrightarrow> part_ref dh p = Shared"
  using split_not_Nil [of "'' OR ''" p]
  by (auto simp: part_ref_def split: list.splits)

lemma final_clause_Cons:
  "final_clause dh c (p # parts) =
     final_clause dh (case split '' OR '' p of [l] \<Rightarrow> [] | ls \<Rightarrow> map (literal_value dh) ls) parts"
  by (simp add: final_clause_def)

lemma clause_loop_known:
  "\<forall>l\<in>set (concat (map (split '' OR '') parts)). dh_values dh (label_token l) \<noteq> None \<Longrightarrow>
   clause_loop dh parts (c, cl) = Inr (final_clause dh c parts, cl @ map (part_ref dh) parts)"
proof (induction parts arbitrary: c cl)
  case Nil
  then show ?case by (simp add: final_clause_def)
next
  case (Cons p parts)
  have rest: "\<forall>l\<in>set (concat (map (split '' OR '') parts)). dh_values dh (label_token l) \<noteq> None"
    using Cons.prems by simp
  have here: "\<forall>l\<in>set (split '' OR '' p). dh_values dh (label_token l) \<noteq> None"
    using Cons.prems by simp
  show ?case
  proof (cases "\<exists>l. split '' OR '' p = [l]")
    case True
    then obtain l where l: "split '' OR '' p = [l]" by blast
    with here obtain b where b: "dh_values dh (label_token l) = Some b" by auto
    show ?thesis
      unfolding clause_loop_single [OF l b] Cons.IH [OF rest] final_clause_Cons
      by (simp add: l part_ref_single [OF l])
  next
    case False
    then have len: "length (split '' OR '' p) \<noteq> 1"
      by (simp add: length_one_conv)
    have c: "(case split '' OR '' p of [l] \<Rightarrow> [] | ls \<Rightarrow> map (literal_value dh) ls)
             = map (literal_value dh) (split '' OR '' p)"
      using False by (auto split: list.splits)
    show ?thesis
      unfolding clause_loop_several [OF len here] Cons.IH [OF rest] final_clause_Cons c
      by (simp add: part_ref_several [OF len])
  qed
qed

lemma clause_loop_unknown:
  "\<exists>l\<in>set (concat (map (split '' OR '') parts)). dh_values dh (label_token l) = None \<Longrightarrow>
   \<exists>l\<in>set (concat (map (split '' OR '') parts)). dh_values dh (label_token l) = None \<and>
     clause_loop dh parts (c, cl) = Inl (KeyError (label_token l))"
proof (induction parts arbitrary: c cl)
  case Nil
  then show ?case by simp
next
  case (Cons p parts)
  show ?case
  proof (cases "\<exists>l\<in>set (split '' OR '' p). dh_values dh (label_token l) = None")
    case True
    show ?thesis
    proof (cases "\<exists>l. split '' OR '' p = [l]")
      case single: True
      then obtain l where l: "split '' OR '' p = [l]" by blast
      with True have "dh_values dh (label_token l) = None" by simp
      then show ?thesis using l by (simp add: literal_integer_unknown)
    next
      case False
      then have len: "length (split '' OR '' p) \<noteq> 1"
        by (simp add: length_one_conv)
      from several_literals_unknown [OF True, of "[]"]
      obtain l where "l \<in> set (split '' OR '' p)" "dh_values dh (label_token l) = None"
        "several_literals dh (split '' OR '' p) [] = Inl (KeyError (label_token l))" by blast
      then show ?thesis using len by auto
    qed
  next
    case False
    then have here: "\<forall>l\<in>set (split '' OR '' p). dh_values dh (label_token l) \<noteq> None" by simp
    from False Cons.prems
    have rest: "\<exists>l\<in>set (concat (map (split '' OR '') parts)). dh_values dh (label_token l) = None"
      by auto
    show ?thesis
    proof (cases "\<exists>l. split '' OR '' p = [l]")
      case True
      then obtain l where l: "split '' OR '' p = [l]" by blast
      with here obtain b where b: "dh_values dh (label_token l) = Some b" by auto
      from Cons.IH [OF rest, of "[]" "cl @ [Own [literal_value dh l]]"]
      show ?thesis unfolding clause_loop_single [OF l b] by auto
    next
      case False
      then have len: "length (split '' OR '' p) \<noteq> 1"
        by (simp add: length_one_conv)
      from Cons.IH [OF rest, of "map (literal_value dh) (split '' OR '' p)" "cl @ [Shared]"]
      show ?thesis unfolding clause_loop_several [OF len here] by auto
    qed
  qed
qed

lemma make_constraints_known:
  assumes "\<forall>l\<in>set (literals_of line). dh_values dh (label_token l) \<noteq> None"
  shows "make_constraints dh line =
     Inr (map (deref (final_clause dh [] (split '' AND '' line)))
              (map (part_ref dh) (split '' AND '' line)))"
  using clause_loop_known [of "split '' AND '' line" dh "[]" "[]"] assms
  by (simp add: make_constraints_def literals_of_def)

lemma make_constraints_unknown:
  assumes "\<exists>l\<in>set (literals_of line). dh_values dh (label_token l) = None"
  shows "\<exists>l\<in>set (literals_of line). dh_values dh (label_token l) = None \<and>
     make_constraints dh line = Inl (KeyError (label_token l))"
proof -
  from clause_loop_unknown [of "split '' AND '' line" dh "[]" "[]"] assms
  obtain l where "l \<in> set (literals_of line)" "dh_values dh (label_token l) = None"
    "clause_loop dh (split '' AND '' line) ([], []) = Inl (KeyError (label_token l))"
    by (auto simp: literals_of_def)
  then show ?thesis by (auto simp: make_constraints_def)
qed


lemma registered_new: "registered new_data_handler"
  by (simp add: registered_def new_data_handler_def)

lemma read_attribute_line_registered:
  "registered dh \<Longrightarrow> read_attribute_line dh line = Inr dh' \<Longrightarrow> registered dh'"
  unfolding registered_def read_attribute_line_def
  by (fastforce split: list.splits if_splits)

lemma read_attribute_lines_registered:
  "registered dh \<Longrightarrow> read_attribute_lines dh lines = Inr dh' \<Longrightarrow> registered dh'"
proof (induction lines arbitrary: dh)
  case Nil
  then show ?case by simp
next
  case (Cons a lines)
  then show ?case
    by (auto split: sum.splits dest: read_attribute_line_registered)
qed

lemma read_attributes_registered:
  "registered dh \<Longrightarrow> read_attributes dh lines = Inr dh' \<Longrightarrow> registered dh'"
  unfolding read_attributes_def by (rule read_attribute_lines_registered)

lemma return_integer_from_found:
  "\<exists>item\<in>set items. v \<in> set item \<Longrightarrow>
   k \<le> return_integer_from k items v \<and> return_integer_from k items v < k + int (length items)
   \<and> v \<in> set (items ! nat (return_integer_from k items v - k))
   \<and> (\<forall>j < nat (return_integer_from k items v - k). v \<notin> set (items ! j))"
proof (induction items arbitrary: k)
  case Nil
  then show ?case by simp
next
  case (Cons item items)
  show ?case
  proof (cases "v \<in> set item")
    case True
    then show ?thesis by simp
  next
    case False
    with Cons.prems have "\<exists>item\<in>set items. v \<in> set item" by simp
    from Cons.IH [OF this, of "k + 1"]
    have ih: "k + 1 \<le> return_integer_from (k + 1) items v"
      "return_integer_from (k + 1) items v < k + 1 + int (length items)"
      "v \<in> set (items ! nat (return_integer_from (k + 1) items v - (k + 1)))"
      "\<forall>j < nat (return_integer_from (k + 1) items v - (k + 1)). v \<notin> set (items ! j)"
      by auto
    have idx: "nat (return_integer_from (k + 1) items v - k)
               = Suc (nat (return_integer_from (k + 1) items v - (k + 1)))"
      using ih(1) by linarith
    show ?thesis
      using False ih idx by (auto simp: nth_Cons split: nat.splits)
  qed
qed

lemma split_on_one_space:
  assumes "CHR '' '' \<notin> set m" and "CHR '' '' \<notin> set l" and "CHR '' '' \<in> set sep'"
  shows "split_on (CHR '' '' # sep') acc (m @ CHR '' '' # l) = [acc @ m @ CHR '' '' # l]"
  using assms(1)
proof (induction m arbitrary: acc)
  case Nil
  have "take (length sep') l \<noteq> sep'"
  proof
    assume "take (length sep') l = sep'"
    then have "set sep' \<subseteq> set l" by (metis set_take_subset)
    with assms show False by auto
  qed
  moreover have "split_on (CHR '' '' # sep') (acc @ '' '') l = [(acc @ '' '') @ l]"
    by (rule split_on_absent [of "CHR '' ''"]) (use assms in auto)
  ultimately show ?case by simp
next
  case (Cons c m)
  then show ?case by auto
qed

lemma bare_label_parts:
  assumes "CHR '' '' \<notin> set label"
  shows "split '' AND '' label = [label]" "split '' OR '' label = [label]"
    "split '' '' label = [label]"
  using assms by (simp_all add: split_def split_on_absent [of "CHR '' ''"])

lemma negated_label_parts:
  assumes "CHR '' '' \<notin> set label" "CHR '' '' \<notin> set marker"
  shows "split '' AND '' (marker @ '' '' @ label) = [marker @ '' '' @ label]"
    "split '' OR '' (marker @ '' '' @ label) = [marker @ '' '' @ label]"
    "split '' '' (marker @ '' '' @ label) = [marker, label]"
  using assms split_on_one_space [of marker label "''AND ''" "[]"]
    split_on_one_space [of marker label "''OR ''" "[]"]
    split_on_space_first [of marker "[]" label]
  by (simp_all add: split_def split_on_absent [of "CHR '' ''"])

lemma one_literal_line:
  assumes "split '' AND '' line = [line]" "split '' OR '' line = [line]"
    "dh_values dh (label_token line) = Some b"
  shows "make_constraints dh line = Inr [[literal_value dh line]]"
proof -
  have "\<forall>l\<in>set (literals_of line). dh_values dh (label_token l) \<noteq> None"
    using assms by (simp add: literals_of_def)
  from make_constraints_known [OF this] assms show ?thesis
    by (simp add: part_ref_def)
qed


text \<open>
  C1. The compiler is meant to return one clause per \<^verbatim>\<open>AND\<close> part, each the literals
  of that part. It does not: every part of several literals is returned as the one
  shared list, whose content is what the last part left in it. On
  \<^verbatim>\<open>big OR red AND round\<close> the first clause comes back empty instead of \<open>[1, 2]\<close>, and on
  \<^verbatim>\<open>big OR red AND round OR blue\<close> both clauses come back as the second one, instead of
  \<open>[1, 2]\<close> and \<open>[3, -2]\<close>.
\<close>

theorem make_constraints_shared_clause:
  "make_constraints ex_handler ''big OR red AND round'' = Inr [[], [3]]
   \<and> make_constraints ex_handler ''big OR red AND round OR blue'' = Inr [[3, - 2], [3, - 2]]"
  by (simp add: make_constraints_def split_def ex_handler_def literal_integer_def
      return_integer_def)

text \<open>
  C7, as amended. For a label registered by \<^verbatim>\<open>read_attributes\<close> that contains no space:
  its bit is 1 or 0, its index \<open>i\<close> is the 1-based position of the first attribute
  listing it (that attribute lists the label and no attribute before it does), the bare
  label compiles to \<open>[[i]]\<close> when the bit is 1 and to \<open>[[-i]]\<close> when it is 0, and a
  marker token, a space and the label compile to the clause of the opposite sign.
\<close>

theorem bare_and_negated_label:
  assumes "read_attributes new_data_handler lines = Inr dh"
    and "dh_values dh label = Some b"
    and "CHR '' '' \<notin> set label" and "CHR '' '' \<notin> set marker"
  shows "(b = 1 \<or> b = 0)
    \<and> 1 \<le> return_integer dh label \<and> return_integer dh label \<le> int (length (attributes dh))
    \<and> label \<in> set (attributes dh ! nat (return_integer dh label - 1))
    \<and> (\<forall>j < nat (return_integer dh label - 1). label \<notin> set (attributes dh ! j))
    \<and> make_constraints dh label
        = Inr [[if b = 1 then return_integer dh label else - return_integer dh label]]
    \<and> make_constraints dh (marker @ '' '' @ label)
        = Inr [[if b = 1 then - return_integer dh label else return_integer dh label]]"
proof -
  have reg: "registered dh"
    using read_attributes_registered [OF registered_new assms(1)] .
  then have b: "b = 0 \<or> b = 1" and item: "\<exists>item\<in>set (attributes dh). label \<in> set item"
    using assms(2) by (auto simp: registered_def)
  from return_integer_from_found [OF item, of 1]
  have idx: "1 \<le> return_integer dh label" "return_integer dh label \<le> int (length (attributes dh))"
    "label \<in> set (attributes dh ! nat (return_integer dh label - 1))"
    "\<forall>j < nat (return_integer dh label - 1). label \<notin> set (attributes dh ! j)"
    by (auto simp: return_integer_def)
  have t1: "label_token label = label"
    using bare_label_parts [OF assms(3)] by (simp add: label_token_def)
  let ?n = "marker @ CHR '' '' # label"
  have np: "split '' AND '' ?n = [?n]" "split '' OR '' ?n = [?n]" "split '' '' ?n = [marker, label]"
    using negated_label_parts [OF assms(3,4)] by simp_all
  have t2: "label_token ?n = label"
    using np by (simp add: label_token_def)
  have v1: "literal_value dh label = (if b = 1 then return_integer dh label else - return_integer dh label)"
    using b assms(2) bare_label_parts [OF assms(3)] literal_integer_known [of dh label b]
    by (auto simp: literal_value_def t1)
  have "literal_integer dh ?n
        = Inr (if b = 1 then - return_integer dh label else return_integer dh label)"
    using literal_integer_known [of dh ?n b] assms(2) np(3) unfolding t2 by simp
  then have v2: "literal_value dh ?n
            = (if b = 1 then - return_integer dh label else return_integer dh label)"
    by (simp add: literal_value_def)
  have m1: "make_constraints dh label = Inr [[literal_value dh label]]"
    using one_literal_line [of label dh b] bare_label_parts [OF assms(3)] assms(2) t1 by simp
  have m2: "make_constraints dh ?n = Inr [[literal_value dh ?n]]"
    using one_literal_line [of ?n dh b] np assms(2) unfolding t2 by simp
  show ?thesis using b idx m1 m2 v1 v2 by auto
qed

theorem bare_and_negated_label_witness:
  "read_attributes new_data_handler
     [''Size: big, small'', ''Color: red, blue'', ''Shape: round, square''] = Inr ex_handler
   \<and> dh_values ex_handler ''blue'' = Some 0 \<and> return_integer ex_handler ''blue'' = 2
   \<and> ''blue'' \<in> set (attributes ex_handler ! 1) \<and> ''blue'' \<notin> set (attributes ex_handler ! 0)
   \<and> make_constraints ex_handler ''blue'' = Inr [[- 2]]
   \<and> make_constraints ex_handler ''NOT blue'' = Inr [[2]]"
proof -
  have r: "read_attributes new_data_handler
     [''Size: big, small'', ''Color: red, blue'', ''Shape: round, square''] = Inr ex_handler"
    by (simp add: read_attributes_def strip_def is_space_def read_attribute_line_def split_def
        new_data_handler_def ex_handler_def)
  have v: "dh_values ex_handler ''blue'' = Some 0" by (simp add: ex_handler_def)
  have i: "return_integer ex_handler ''blue'' = 2" by (simp add: return_integer_def ex_handler_def)
  from bare_and_negated_label [OF r v, of "''NOT''"] r v i show ?thesis by simp
qed

text \<open>
  C7 as stated fails for a registered label with a space in it: the bare label
  \<^verbatim>\<open>dark red\<close>, registered with bit 1 at index 1, is read as a marker and the label
  \<^verbatim>\<open>red\<close>, and the compiler raises instead of returning \<open>[[1]]\<close>.
\<close>

theorem spaced_label_counterexample:
  "read_attributes new_data_handler [''Color: dark red, light blue''] = Inr ex_color_handler
   \<and> dh_values ex_color_handler ''dark red'' = Some 1
   \<and> return_integer ex_color_handler ''dark red'' = 1
   \<and> make_constraints ex_color_handler ''dark red'' = Inl (KeyError ''red'')"
  by (simp add: read_attributes_def strip_def is_space_def read_attribute_line_def split_def
      new_data_handler_def ex_color_handler_def make_constraints_def literal_integer_def
      return_integer_def)

lemma literals_of_single:
  assumes "literals_of line = [l]"
  shows "\<exists>p. split '' AND '' line = [p] \<and> split '' OR '' p = [l]"
proof -
  obtain p ps where ps: "split '' AND '' line = p # ps"
    using split_not_Nil [of "'' AND ''" line] by (cases "split '' AND '' line") auto
  have ne: "split '' OR '' q \<noteq> []" for q by (rule split_not_Nil)
  from assms ps have c: "split '' OR '' p @ concat (map (split '' OR '') ps) = [l]"
    by (simp add: literals_of_def)
  have "ps = []"
  proof (cases ps)
    case Nil then show ?thesis .
  next
    case (Cons q qs)
    with c ne [of p] ne [of q] show ?thesis
      by (cases "split '' OR '' p"; cases "split '' OR '' q") auto
  qed
  with c ps show ?thesis by simp
qed

text \<open>
  C9, as amended. Compiling fails exactly when some literal's label token (the second
  of exactly two tokens, the first otherwise) is not a key of the table, and the
  exception is \<^verbatim>\<open>KeyError\<close> for such a token. A literal of more than two tokens is not
  rejected: when its first token is registered, the formula made of this literal
  compiles to the clause of the bare first token.
\<close>

theorem make_constraints_error_cases:
  "(\<forall>e. make_constraints dh line = Inl e \<longrightarrow>
      (\<exists>l\<in>set (literals_of line). dh_values dh (label_token l) = None \<and> e = KeyError (label_token l)))
   \<and> ((\<exists>l\<in>set (literals_of line). dh_values dh (label_token l) = None) \<longrightarrow>
      (\<exists>l\<in>set (literals_of line). dh_values dh (label_token l) = None
         \<and> make_constraints dh line = Inl (KeyError (label_token l))))
   \<and> (\<forall>l t0 t1 t2 ts b.
        literals_of line = [l] \<and> split '' '' l = t0 # t1 # t2 # ts \<and> dh_values dh t0 = Some b \<longrightarrow>
        make_constraints dh line
          = Inr [[if b = 0 then - return_integer dh t0 else return_integer dh t0]])"
proof (intro conjI allI impI)
  fix e assume e: "make_constraints dh line = Inl e"
  show "\<exists>l\<in>set (literals_of line). dh_values dh (label_token l) = None \<and> e = KeyError (label_token l)"
  proof (cases "\<exists>l\<in>set (literals_of line). dh_values dh (label_token l) = None")
    case True
    from make_constraints_unknown [OF True] e show ?thesis by auto
  next
    case False
    then have "\<forall>l\<in>set (literals_of line). dh_values dh (label_token l) \<noteq> None" by simp
    from make_constraints_known [OF this] e show ?thesis by simp
  qed
next
  assume "\<exists>l\<in>set (literals_of line). dh_values dh (label_token l) = None"
  then show "\<exists>l\<in>set (literals_of line). dh_values dh (label_token l) = None
         \<and> make_constraints dh line = Inl (KeyError (label_token l))"
    by (rule make_constraints_unknown)
next
  fix l t0 t1 t2 ts b
  assume a: "literals_of line = [l] \<and> split '' '' l = t0 # t1 # t2 # ts \<and> dh_values dh t0 = Some b"
  then have tok: "label_token l = t0" by (simp add: label_token_def)
  from a literals_of_single obtain p where p: "split '' AND '' line = [p]" "split '' OR '' p = [l]"
    by blast
  have known: "\<forall>l\<in>set (literals_of line). dh_values dh (label_token l) \<noteq> None"
    using a tok by simp
  have v: "literal_value dh l = (if b = 0 then - return_integer dh t0 else return_integer dh t0)"
    using literal_integer_known [of dh l b] a tok by (simp add: literal_value_def)
  show "make_constraints dh line
          = Inr [[if b = 0 then - return_integer dh t0 else return_integer dh t0]]"
    using make_constraints_known [OF known] p v by (simp add: part_ref_def)
qed

theorem make_constraints_error_cases_witness:
  "make_constraints ex_handler ''big AND NOT huge OR red'' = Inl (KeyError ''huge'')
   \<and> make_constraints ex_handler ''big and very red'' = Inr [[1]]"
proof -
  have l: "literals_of ''big AND NOT huge OR red'' = [''big'', ''NOT huge'', ''red'']"
    by (simp add: literals_of_def split_def)
  have t: "label_token ''big'' = ''big''" "label_token ''NOT huge'' = ''huge''" "label_token ''red'' = ''red''"
    by (simp_all add: label_token_def split_def)
  have u: "\<exists>l\<in>set (literals_of ''big AND NOT huge OR red''). dh_values ex_handler (label_token l) = None"
    unfolding l by (simp add: t ex_handler_def)
  have l2: "literals_of ''big and very red'' = [''big and very red'']"
    by (simp add: literals_of_def split_def)
  have s2: "split '' '' ''big and very red'' = [''big'', ''and'', ''very'', ''red'']"
    by (simp add: split_def)
  have v2: "dh_values ex_handler ''big'' = Some 1" by (simp add: ex_handler_def)
  have i2: "return_integer ex_handler ''big'' = 1" by (simp add: ex_handler_def return_integer_def)
  from make_constraints_error_cases [of ex_handler "''big AND NOT huge OR red''"] u
  have "\<exists>l\<in>set (literals_of ''big AND NOT huge OR red''). dh_values ex_handler (label_token l) = None
         \<and> make_constraints ex_handler ''big AND NOT huge OR red'' = Inl (KeyError (label_token l))"
    by blast
  then have 1: "make_constraints ex_handler ''big AND NOT huge OR red'' = Inl (KeyError ''huge'')"
    unfolding l by (auto simp: t ex_handler_def)
  from make_constraints_error_cases [of ex_handler "''big and very red''"] l2 s2 v2
  have "make_constraints ex_handler ''big and very red''
          = Inr [[if (1::int) = 0 then - return_integer ex_handler ''big'' else return_integer ex_handler ''big'']]"
    by blast
  with 1 i2 show ?thesis by simp
qed

text \<open>
  C9 as stated fails on a literal of four tokens: no exception is raised, the clause
  of \<^verbatim>\<open>big\<close> is returned.
\<close>

theorem four_token_literal_counterexample:
  "split '' '' ''big and very red'' = [''big'', ''and'', ''very'', ''red'']
   \<and> make_constraints ex_handler ''big and very red'' = Inr [[1]]"
  by (simp add: make_constraints_def split_def ex_handler_def literal_integer_def
      return_integer_def)

section \<open>Reading qualitative rules\<close>

lemma re_split_IF_on_not_Nil: "re_split_IF_on acc s \<noteq> []"
  by (induction acc s rule: re_split_IF_on.induct) auto

lemma re_split_IF_on_head:
  assumes "re_split_IF_on acc (c # cs) = [r]"
  shows "take 4 (c # cs) \<noteq> '' IF ''" "take 3 (c # cs) \<noteq> '' IF''"
    "re_split_IF_on (acc @ [c]) cs = [r]"
proof -
  show 4: "take 4 (c # cs) \<noteq> '' IF ''"
  proof
    assume "take 4 (c # cs) = '' IF ''"
    then have "re_split_IF_on acc (c # cs) = acc # re_split_IF_on [] (drop 4 (c # cs))"
      by (simp only: re_split_IF_on.simps if_True simp_thms)
    with assms have "re_split_IF_on [] (drop 4 (c # cs)) = []" by (metis list.inject)
    then show False by (simp only: re_split_IF_on_not_Nil)
  qed
  show 3: "take 3 (c # cs) \<noteq> '' IF''"
  proof
    assume "take 3 (c # cs) = '' IF''"
    with 4 have "re_split_IF_on acc (c # cs) = acc # re_split_IF_on [] (drop 3 (c # cs))"
      by (simp only: re_split_IF_on.simps if_True if_False simp_thms)
    with assms have "re_split_IF_on [] (drop 3 (c # cs)) = []" by (metis list.inject)
    then show False by (simp only: re_split_IF_on_not_Nil)
  qed
  from 4 3 have "re_split_IF_on acc (c # cs) = re_split_IF_on (acc @ [c]) cs"
    by (simp only: re_split_IF_on.simps if_False simp_thms)
  with assms show "re_split_IF_on (acc @ [c]) cs = [r]" by simp
qed

lemma re_split_IF_on_skip:
  assumes "take 4 (c # cs) \<noteq> '' IF ''" "take 3 (c # cs) \<noteq> '' IF''"
  shows "re_split_IF_on acc (c # cs) = re_split_IF_on (acc @ [c]) cs"
  using assms by (simp only: re_split_IF_on.simps if_False simp_thms)

lemma re_split_IF_on_one:
  "re_split_IF_on acc s = [r] \<Longrightarrow> re_split_IF_on acc' s = [acc' @ s]"
proof (induction s arbitrary: acc acc' r)
  case Nil
  then show ?case by simp
next
  case (Cons c cs)
  note h = re_split_IF_on_head [OF Cons.prems]
  from Cons.IH [OF h(3), of "acc' @ [c]"] show ?case
    unfolding re_split_IF_on_skip [OF h(1,2)] by simp
qed

lemma take_append_keyword:
  assumes "take 4 (c # cs) \<noteq> '' IF ''" "take 3 (c # cs) \<noteq> '' IF''"
  shows "take 4 (c # cs @ CHR '' '' # CHR ''I'' # CHR ''F'' # t) \<noteq> '' IF ''"
    "take 3 (c # cs @ CHR '' '' # CHR ''I'' # CHR ''F'' # t) \<noteq> '' IF''"
proof -
  show "take 4 (c # cs @ CHR '' '' # CHR ''I'' # CHR ''F'' # t) \<noteq> '' IF ''"
    using assms by (cases cs; cases "tl cs"; cases "tl (tl cs)") auto
  show "take 3 (c # cs @ CHR '' '' # CHR ''I'' # CHR ''F'' # t) \<noteq> '' IF''"
    using assms by (cases cs; cases "tl cs") auto
qed

lemma re_split_IF_on_keyword:
  "re_split_IF_on a s = [r] \<Longrightarrow>
   re_split_IF_on acc (s @ '' IF '' @ t) = (acc @ s) # re_split_IF_on [] t"
proof (induction s arbitrary: a acc r)
  case Nil
  then show ?case by simp
next
  case (Cons c cs)
  note h = re_split_IF_on_head [OF Cons.prems]
  note k = take_append_keyword [OF h(1,2), of "CHR '' '' # t"]
  have "re_split_IF_on acc ((c # cs) @ '' IF '' @ t)
        = re_split_IF_on (acc @ [c]) (cs @ '' IF '' @ t)"
    using re_split_IF_on_skip [OF k] by simp
  with Cons.IH [OF h(3), of "acc @ [c]"] show ?case by simp
qed

lemma re_split_IF_on_trailing:
  "re_split_IF_on a s = [r] \<Longrightarrow> re_split_IF_on acc (s @ '' IF'') = [acc @ s, []]"
proof (induction s arbitrary: a acc r)
  case Nil
  then show ?case by simp
next
  case (Cons c cs)
  note h = re_split_IF_on_head [OF Cons.prems]
  note k = take_append_keyword [OF h(1,2), of "[]"]
  have "re_split_IF_on acc ((c # cs) @ '' IF'')
        = re_split_IF_on (acc @ [c]) (cs @ '' IF'')"
    using re_split_IF_on_skip [OF k] by simp
  with Cons.IH [OF h(3), of "acc @ [c]"] show ?case by simp
qed

lemma compile_tiers_Inr:
  "compile_tiers dh ps acc = Inr ts \<longleftrightarrow>
     (\<exists>cs. ts = acc @ cs \<and> map (make_constraints dh) ps = map Inr cs)"
proof (induction ps arbitrary: acc)
  case Nil
  then show ?case by auto
next
  case (Cons p ps)
  show ?case
  proof (cases "make_constraints dh p")
    case (Inl e)
    then show ?thesis by (auto simp: map_eq_Cons_conv)
  next
    case (Inr c)
    show ?thesis
    proof
      assume "compile_tiers dh (p # ps) acc = Inr ts"
      with Inr Cons.IH [of "acc @ [c]"] obtain cs where
        "ts = (acc @ [c]) @ cs" "map (make_constraints dh) ps = map Inr cs" by auto
      then have "ts = acc @ (c # cs) \<and> map (make_constraints dh) (p # ps) = map Inr (c # cs)"
        using Inr by simp
      then show "\<exists>cs. ts = acc @ cs \<and> map (make_constraints dh) (p # ps) = map Inr cs" by blast
    next
      assume "\<exists>cs. ts = acc @ cs \<and> map (make_constraints dh) (p # ps) = map Inr cs"
      then obtain cs where cs: "ts = acc @ cs" "map (make_constraints dh) (p # ps) = map Inr cs"
        by blast
      then obtain cs' where "cs = c # cs'" "map (make_constraints dh) ps = map Inr cs'"
        using Inr by (cases cs) auto
      with cs Inr Cons.IH [of "acc @ [c]"] show "compile_tiers dh (p # ps) acc = Inr ts"
        by auto
    qed
  qed
qed


lemma compile_tiers_Inl:
  "compile_tiers dh ps acc = Inl e \<Longrightarrow> \<exists>p\<in>set ps. make_constraints dh p = Inl e"
  by (induction ps arbitrary: acc) (auto split: sum.splits)

lemma occurs_IF_iff: "occurs_IF s \<longleftrightarrow> (\<exists>u v. s = u @ '' IF'' @ v)"
proof (induction s)
  case Nil
  then show ?case by simp
next
  case (Cons c cs)
  have "take 3 (c # cs) = '' IF'' \<longleftrightarrow> (\<exists>v. c # cs = '' IF'' @ v)"
  proof
    assume "take 3 (c # cs) = '' IF''"
    then have "c # cs = '' IF'' @ drop 3 (c # cs)"
      by (metis append_take_drop_id)
    then show "\<exists>v. c # cs = '' IF'' @ v" ..
  next
    assume "\<exists>v. c # cs = '' IF'' @ v"
    then show "take 3 (c # cs) = '' IF''" by auto
  qed
  moreover have "(\<exists>u v. c # cs = u @ '' IF'' @ v)
      \<longleftrightarrow> (\<exists>v. c # cs = '' IF'' @ v) \<or> (\<exists>u v. cs = u @ '' IF'' @ v)"
  proof
    assume "\<exists>u v. c # cs = u @ '' IF'' @ v"
    then obtain u v where uv: "c # cs = u @ '' IF'' @ v" by blast
    show "(\<exists>v. c # cs = '' IF'' @ v) \<or> (\<exists>u v. cs = u @ '' IF'' @ v)"
    proof (cases u)
      case Nil
      with uv show ?thesis by auto
    next
      case (Cons a u')
      with uv have "cs = u' @ '' IF'' @ v" by simp
      then show ?thesis by blast
    qed
  next
    assume "(\<exists>v. c # cs = '' IF'' @ v) \<or> (\<exists>u v. cs = u @ '' IF'' @ v)"
    then show "\<exists>u v. c # cs = u @ '' IF'' @ v"
    proof
      assume "\<exists>v. c # cs = '' IF'' @ v"
      then obtain v where "c # cs = [] @ '' IF'' @ v" by auto
      then show ?thesis by blast
    next
      assume "\<exists>u v. cs = u @ '' IF'' @ v"
      then obtain u v where "cs = u @ '' IF'' @ v" by blast
      then have "c # cs = (c # u) @ '' IF'' @ v" by simp
      then show ?thesis by blast
    qed
  qed
  ultimately show ?case using Cons.IH by simp
qed

lemma take_keyword_shorter: "take 4 s = '' IF '' \<Longrightarrow> take 3 s = '' IF''"
proof -
  assume "take 4 s = '' IF ''"
  then have "take 3 (take 4 s) = take 3 '' IF ''" by simp
  then show ?thesis by (simp add: min_def)
qed

lemma re_split_IF_on_absent:
  "\<not> occurs_IF s \<Longrightarrow> re_split_IF_on acc s = [acc @ s]"
proof (induction s arbitrary: acc)
  case Nil
  then show ?case by simp
next
  case (Cons c cs)
  from Cons.prems have 3: "take 3 (c # cs) \<noteq> '' IF''" and rest: "\<not> occurs_IF cs"
    by (simp_all only: occurs_IF.simps de_Morgan_disj not_False_eq_True simp_thms)
  from 3 take_keyword_shorter [of "c # cs"] have 4: "take 4 (c # cs) \<noteq> '' IF ''" by blast
  show ?case
    unfolding re_split_IF_on_skip [OF 4 3] Cons.IH [OF rest] by simp
qed

lemma re_split_IF_on_present:
  "occurs_IF s \<Longrightarrow> 2 \<le> length (re_split_IF_on acc s)"
proof (induction s arbitrary: acc)
  case Nil
  then show ?case by simp
next
  case (Cons c cs)
  show ?case
  proof (cases "take 4 (c # cs) = '' IF ''")
    case True
    then have "re_split_IF_on acc (c # cs) = acc # re_split_IF_on [] (drop 4 (c # cs))"
      by (simp only: re_split_IF_on.simps if_True simp_thms)
    with re_split_IF_on_not_Nil [of "[]" "drop 4 (c # cs)"] show ?thesis
      by (cases "re_split_IF_on [] (drop 4 (c # cs))") simp_all
  next
    case 4: False
    show ?thesis
    proof (cases "take 3 (c # cs) = '' IF''")
      case True
      with 4 have "re_split_IF_on acc (c # cs) = acc # re_split_IF_on [] (drop 3 (c # cs))"
        by (simp only: re_split_IF_on.simps if_True if_False simp_thms)
      with re_split_IF_on_not_Nil [of "[]" "drop 3 (c # cs)"] show ?thesis
        by (cases "re_split_IF_on [] (drop 3 (c # cs))") simp_all
    next
      case False
      with Cons.prems have "occurs_IF cs"
        by (simp only: occurs_IF.simps simp_thms)
      from Cons.IH [OF this, of "acc @ [c]"] show ?thesis
        unfolding re_split_IF_on_skip [OF 4 False] .
    qed
  qed
qed

lemma re_split_IF_absent: "re_split_IF s = [s] \<longleftrightarrow> \<not> occurs_IF s"
proof
  assume "re_split_IF s = [s]"
  then have "length (re_split_IF_on [] s) = 1" by (simp add: re_split_IF_def)
  with re_split_IF_on_present [of s "[]"] show "\<not> occurs_IF s" by auto
next
  assume "\<not> occurs_IF s"
  from re_split_IF_on_absent [OF this, of "[]"] show "re_split_IF s = [s]"
    by (simp add: re_split_IF_def)
qed

text \<open>
  Where the split text occurs a second time the line is not read as tiers and a
  condition. With the labels \<^verbatim>\<open>big\<close> and \<^verbatim>\<open>IFFY\<close> registered, the line \<^verbatim>\<open>big BT IFFY IF\<close> is
  cut inside the label and raises \<^verbatim>\<open>KeyError\<close> for \<^verbatim>\<open>BT\<close>, and the line
  \<^verbatim>\<open>big BT small IF small AND IFFY\<close> yields a rule without a condition.
\<close>

lemma keyword_inside_label:
  "read_qualitative_line ex_iffy_handler ''big BT IFFY IF'' = Inl (KeyError ''BT'')"
  "read_qualitative_line ex_iffy_handler ''big BT small IF small AND IFFY''
     = Inr \<lparr>qcl_name = ''big BT small IF small AND IFFY'',
            qcl_constraints = [[[1]], [[- 1]]], qcl_condition = None\<rparr>"
  by (simp_all add: read_qualitative_line_def re_split_IF_def split_def ex_iffy_handler_def
      make_constraints_def literal_integer_def return_integer_def)

text \<open>
  C3, as amended. A rule line needs the \<^verbatim>\<open>IF\<close> keyword, and it is split at every
  occurrence of a space followed by \<^verbatim>\<open>IF\<close>. For a tier text in which that text does not
  occur: the tier text followed by a space and \<^verbatim>\<open>IF\<close> yields the rule with no condition;
  the tier text, a space, \<^verbatim>\<open>IF\<close>, a space and a non-empty condition text in which a space
  followed by \<^verbatim>\<open>IF\<close> does not occur yields the same tiers and the compiled condition; in
  both, the name is the line, the tiers are the compiled \<^verbatim>\<open>BT\<close> parts in their order, and
  the line fails with the compiler's error when a formula fails to compile (the
  condition is compiled first); the tier text alone raises \<^verbatim>\<open>IndexError\<close>.
\<close>

theorem read_qualitative_line_cases:
  assumes "\<not> occurs_IF logic"
  shows "read_qualitative_line dh (logic @ '' IF'') =
      (case compile_tiers dh (split '' BT '' logic) [] of
         Inl e \<Rightarrow> Inl e
       | Inr tiers \<Rightarrow>
           Inr \<lparr>qcl_name = logic @ '' IF'', qcl_constraints = tiers, qcl_condition = None\<rparr>)
   \<and> (\<not> occurs_IF cond \<and> cond \<noteq> [] \<longrightarrow>
      read_qualitative_line dh (logic @ '' IF '' @ cond) =
      (case make_constraints dh cond of
         Inl e \<Rightarrow> Inl e
       | Inr c \<Rightarrow>
           (case compile_tiers dh (split '' BT '' logic) [] of
              Inl e \<Rightarrow> Inl e
            | Inr tiers \<Rightarrow>
                Inr \<lparr>qcl_name = logic @ '' IF '' @ cond, qcl_constraints = tiers,
                     qcl_condition = Some c\<rparr>)))
   \<and> (\<forall>tiers. compile_tiers dh (split '' BT '' logic) [] = Inr tiers \<longleftrightarrow>
         map (make_constraints dh) (split '' BT '' logic) = map Inr tiers)
   \<and> (\<forall>e. compile_tiers dh (split '' BT '' logic) [] = Inl e \<longrightarrow>
         (\<exists>p\<in>set (split '' BT '' logic). make_constraints dh p = Inl e))
   \<and> read_qualitative_line dh logic = Inl IndexError
   \<and> (\<forall>u v. logic \<noteq> u @ '' IF'' @ v)"
proof -
  from assms have ll: "re_split_IF logic = [logic]" by (simp add: re_split_IF_absent)
  then have l: "re_split_IF_on [] logic = [logic]" by (simp add: re_split_IF_def)
  have "re_split_IF (logic @ '' IF'') = [logic, []]"
    using re_split_IF_on_trailing [OF l, of "[]"] by (simp add: re_split_IF_def)
  then have A: "read_qualitative_line dh (logic @ '' IF'') =
      (case compile_tiers dh (split '' BT '' logic) [] of
         Inl e \<Rightarrow> Inl e
       | Inr tiers \<Rightarrow>
           Inr \<lparr>qcl_name = logic @ '' IF'', qcl_constraints = tiers, qcl_condition = None\<rparr>)"
    by (simp add: read_qualitative_line_def)
  have B: "read_qualitative_line dh (logic @ '' IF '' @ cond) =
      (case make_constraints dh cond of
         Inl e \<Rightarrow> Inl e
       | Inr c \<Rightarrow>
           (case compile_tiers dh (split '' BT '' logic) [] of
              Inl e \<Rightarrow> Inl e
            | Inr tiers \<Rightarrow>
                Inr \<lparr>qcl_name = logic @ '' IF '' @ cond, qcl_constraints = tiers,
                     qcl_condition = Some c\<rparr>))"
    if c: "\<not> occurs_IF cond \<and> cond \<noteq> []"
  proof -
    from c have "re_split_IF_on [] cond = [cond]" by (simp add: re_split_IF_on_absent)
    then have "re_split_IF (logic @ '' IF '' @ cond) = [logic, cond]"
      using re_split_IF_on_keyword [OF l, of "[]" cond] by (simp add: re_split_IF_def)
    then show ?thesis
      using c by (auto simp: read_qualitative_line_def split: sum.splits)
  qed
  have C: "compile_tiers dh (split '' BT '' logic) [] = Inr tiers \<longleftrightarrow>
         map (make_constraints dh) (split '' BT '' logic) = map Inr tiers" for tiers
    by (simp add: compile_tiers_Inr)
  have D: "\<exists>p\<in>set (split '' BT '' logic). make_constraints dh p = Inl e"
    if "compile_tiers dh (split '' BT '' logic) [] = Inl e" for e
    using that by (rule compile_tiers_Inl)
  have E: "read_qualitative_line dh logic = Inl IndexError"
    using ll by (simp add: read_qualitative_line_def)
  have F: "logic \<noteq> u @ '' IF'' @ v" for u v
    using assms occurs_IF_iff [of logic] by blast
  from A B C D E F show ?thesis by blast
qed

theorem read_qualitative_line_cases_witness:
  "read_qualitative_line ex_handler ''big BT red IF''
     = Inr \<lparr>qcl_name = ''big BT red IF'', qcl_constraints = [[[1]], [[2]]], qcl_condition = None\<rparr>
   \<and> read_qualitative_line ex_handler ''big BT red IF round''
     = Inr \<lparr>qcl_name = ''big BT red IF round'', qcl_constraints = [[[1]], [[2]]],
            qcl_condition = Some [[3]]\<rparr>
   \<and> read_qualitative_line ex_handler ''big BT red'' = Inl IndexError
   \<and> read_qualitative_line ex_handler ''big BT green IF'' = Inl (KeyError ''green'')"
proof -
  have l: "\<not> occurs_IF ''big BT red''" "\<not> occurs_IF ''big BT green''"
    by simp_all
  have c: "\<not> occurs_IF ''round'' \<and> ''round'' \<noteq> []"
    by simp
  have m: "make_constraints ex_handler ''round'' = Inr [[3]]"
    "make_constraints ex_handler ''big'' = Inr [[1]]"
    "make_constraints ex_handler ''red'' = Inr [[2]]"
    "make_constraints ex_handler ''green'' = Inl (KeyError ''green'')"
    by (simp_all add: make_constraints_def split_def ex_handler_def literal_integer_def
        return_integer_def)
  have s: "split '' BT '' ''big BT red'' = [''big'', ''red'']"
    "split '' BT '' ''big BT green'' = [''big'', ''green'']"
    by (simp_all add: split_def)
  have t: "compile_tiers ex_handler (split '' BT '' ''big BT red'') [] = Inr [[[1]], [[2]]]"
    "compile_tiers ex_handler (split '' BT '' ''big BT green'') [] = Inl (KeyError ''green'')"
    unfolding s by (simp_all add: m)
  from read_qualitative_line_cases [OF l(1), of ex_handler "''round''"]
    read_qualitative_line_cases [OF l(2), of ex_handler]
    c show ?thesis
    by (simp add: m t)
qed

text \<open>
  C3 as stated fails on a line with no \<^verbatim>\<open>IF\<close>: reading \<^verbatim>\<open>values[1]\<close> raises.
\<close>

theorem line_without_IF_counterexample:
  "read_qualitative_line ex_handler ''big BT red'' = Inl IndexError
   \<and> read_qualitative_logic ex_handler [''big BT red''] = Inl IndexError"
  by (simp add: read_qualitative_logic_def read_qualitative_line_def re_split_IF_def strip_def
      is_space_def)

section \<open>The qualitative scorer\<close>

lemma true_logics_enumerate:
  "map fst (filter snd (map (\<lambda>(index, f). (index, solve f)) (List.enumerate k fs)))
   = filter (\<lambda>i. solve (fs ! (i - k))) [k ..< k + length fs]"
proof (induction fs arbitrary: k)
  case Nil
  then show ?case by simp
next
  case (Cons f fs)
  have u: "[k ..< k + length (f # fs)] = k # [Suc k ..< Suc k + length fs]"
    by (simp add: upt_rec)
  have c: "filter (\<lambda>i. solve ((f # fs) ! (i - k))) [Suc k ..< Suc k + length fs]
        = filter (\<lambda>i. solve (fs ! (i - Suc k))) [Suc k ..< Suc k + length fs]"
    by (rule filter_cong) (auto simp: nth_Cons')
  show ?case
    unfolding u using Cons [of "Suc k"] c by simp
qed

lemma py_min_Min: "xs \<noteq> [] \<Longrightarrow> py_min xs = Min (set xs)"
  using Min.set_eq_fold [of "hd xs" "tl xs"] by (cases xs) (simp_all add: py_min_def)


lemma true_logics_tiers:
  "map fst (filter snd (map (\<lambda>(index, f). (index, solve f))
      (List.enumerate 1 (map (\<lambda>logic. logic @ return_test_integers ob) (qcl_constraints rule)))))
   = true_tiers rule ob"
proof -
  have "filter (\<lambda>i. solve (map (\<lambda>logic. logic @ return_test_integers ob) (qcl_constraints rule) ! (i - 1)))
          [1 ..< 1 + length (qcl_constraints rule)]
        = filter (\<lambda>i. solve (qcl_constraints rule ! (i - 1) @ return_test_integers ob))
          [1 ..< 1 + length (qcl_constraints rule)]"
    by (rule filter_cong) auto
  then show ?thesis
    using true_logics_enumerate
      [of 1 "map (\<lambda>logic. logic @ return_test_integers ob) (qcl_constraints rule)"]
    by (simp add: true_tiers_def)
qed

lemma set_true_tiers:
  "set (true_tiers rule ob) = {i. 1 \<le> i \<and> i \<le> length (qcl_constraints rule)
     \<and> solve (qcl_constraints rule ! (i - 1) @ return_test_integers ob)}"
  by (auto simp: true_tiers_def)

lemma min_true_tier_enat:
  "min_true_tier rule ob = enat n \<longleftrightarrow>
     1 \<le> n \<and> n \<le> length (qcl_constraints rule)
     \<and> solve (qcl_constraints rule ! (n - 1) @ return_test_integers ob)
     \<and> (\<forall>i. 1 \<le> i \<and> i < n \<longrightarrow> \<not> solve (qcl_constraints rule ! (i - 1) @ return_test_integers ob))"
proof (cases "true_tiers rule ob = []")
  case True
  then have "set (true_tiers rule ob) = {}" by simp
  then have "\<forall>i. \<not> (1 \<le> i \<and> i \<le> length (qcl_constraints rule)
     \<and> solve (qcl_constraints rule ! (i - 1) @ return_test_integers ob))"
    unfolding set_true_tiers by blast
  with True show ?thesis by (auto simp: min_true_tier_def)
next
  case False
  then have ne: "set (true_tiers rule ob) \<noteq> {}" by simp
  have m: "Min (set (true_tiers rule ob)) = n \<longleftrightarrow>
       n \<in> set (true_tiers rule ob) \<and> (\<forall>i \<in> set (true_tiers rule ob). n \<le> i)"
    using ne by (metis List.finite_set Min_eqI Min_in Min_le)
  have "(\<forall>i \<in> set (true_tiers rule ob). n \<le> i) \<longleftrightarrow>
    (\<forall>i. 1 \<le> i \<and> i < n \<longrightarrow> \<not> solve (qcl_constraints rule ! (i - 1) @ return_test_integers ob))"
    if "n \<le> length (qcl_constraints rule)"
    unfolding set_true_tiers using that
    by (metis (mono_tags, lifting) leD le_less_linear less_le_trans mem_Collect_eq less_imp_le)
  with False m show ?thesis
    unfolding min_true_tier_def set_true_tiers by auto
qed


lemma test_cases:
  "QualitativeChoiceLogic_test rule ob =
     (case qcl_condition rule of
        Some c \<Rightarrow> if solve (c @ return_test_integers ob) then min_true_tier rule ob else \<infinity>
      | None \<Rightarrow> min_true_tier rule ob)"
  unfolding QualitativeChoiceLogic_test_def Let_def true_logics_tiers min_true_tier_def
  by (simp add: py_min_Min split: option.splits)

lemma min_true_tier_infinity:
  "min_true_tier rule ob = \<infinity> \<longleftrightarrow>
     (\<forall>i. 1 \<le> i \<and> i \<le> length (qcl_constraints rule) \<longrightarrow>
        \<not> solve (qcl_constraints rule ! (i - 1) @ return_test_integers ob))"
proof -
  have "true_tiers rule ob = [] \<longleftrightarrow> set (true_tiers rule ob) = {}" by simp
  then show ?thesis
    unfolding min_true_tier_def set_true_tiers by auto
qed

text \<open>
  C2. The degree a rule returns for an object: with a condition that holds under the
  object's unit clauses, or with no condition, it is the least tier index (from 1)
  whose clauses hold under the unit clauses, and infinity when no tier holds; with a
  condition that does not hold it is infinity, whatever the tiers.
\<close>

theorem qualitative_degree:
  "QualitativeChoiceLogic_test rule ob =
     (case qcl_condition rule of
        Some c \<Rightarrow> if solve (c @ return_test_integers ob) then min_true_tier rule ob else \<infinity>
      | None \<Rightarrow> min_true_tier rule ob)
   \<and> (\<forall>n. min_true_tier rule ob = enat n \<longleftrightarrow>
         1 \<le> n \<and> n \<le> length (qcl_constraints rule)
         \<and> solve (qcl_constraints rule ! (n - 1) @ return_test_integers ob)
         \<and> (\<forall>i. 1 \<le> i \<and> i < n \<longrightarrow>
               \<not> solve (qcl_constraints rule ! (i - 1) @ return_test_integers ob)))
   \<and> (min_true_tier rule ob = \<infinity> \<longleftrightarrow>
         (\<forall>i. 1 \<le> i \<and> i \<le> length (qcl_constraints rule) \<longrightarrow>
            \<not> solve (qcl_constraints rule ! (i - 1) @ return_test_integers ob)))"
  using test_cases [of rule ob] min_true_tier_enat [of rule ob] min_true_tier_infinity [of rule ob]
  by blast

theorem qualitative_degree_witness:
  "QualitativeChoiceLogic_test ex_rule ex_o3 = enat 2
   \<and> QualitativeChoiceLogic_test ex_rule ex_o1 = \<infinity>"
proof -
  have 1: "solve ([1] # return_test_integers ex_o3)" by code_simp
  have 2: "true_tiers ex_rule ex_o3 = [2]" by code_simp
  have 3: "\<not> solve ([1] # return_test_integers ex_o1)" by code_simp
  have c: "qcl_condition ex_rule = Some [[1]]" by (simp add: ex_rule_def)
  from qualitative_degree [of ex_rule ex_o3] qualitative_degree [of ex_rule ex_o1] show ?thesis
    unfolding c by (simp add: 1 2 3 min_true_tier_def)
qed

section \<open>Dominance between degree vectors\<close>

lemma compare_degrees_same_length:
  "length xs = length ys \<Longrightarrow>
   compare_degrees xs ys acc
     = Inr (acc @ map2 (\<lambda>x y. if x < y then 1 else if x > y then 2 else 0) xs ys)"
  by (induction xs ys arbitrary: acc rule: list_induct2) auto

lemma in_set_map2:
  "length xs = length ys \<Longrightarrow>
   v \<in> set (map2 f xs ys) \<longleftrightarrow> (\<exists>i<length xs. f (xs ! i) (ys ! i) = v)"
  by (force simp: set_zip)

lemma one_in_comparison:
  fixes xs ys :: "('a::linorder) list"
  assumes "length xs = length ys"
  shows "(1::nat) \<in> set (map2 (\<lambda>x y. if x < y then 1 else if x > y then 2 else 0) xs ys)
     \<longleftrightarrow> (\<exists>i<length xs. xs ! i < ys ! i)"
proof -
  have "(if x < y then 1 else if x > y then 2 else 0) = (1::nat) \<longleftrightarrow> x < y" for x y :: 'a
    by simp
  then show ?thesis unfolding in_set_map2 [OF assms] by simp
qed

lemma two_in_comparison:
  fixes xs ys :: "('a::linorder) list"
  assumes "length xs = length ys"
  shows "(2::nat) \<in> set (map2 (\<lambda>x y. if x < y then 1 else if x > y then 2 else 0) xs ys)
     \<longleftrightarrow> (\<exists>i<length xs. xs ! i > ys ! i)"
proof -
  have "(if x < y then 1 else if x > y then 2 else 0) = (2::nat) \<longleftrightarrow> x > y" for x y :: 'a
    using less_not_sym [of x y] by simp
  then show ?thesis unfolding in_set_map2 [OF assms] by simp
qed

lemma outcome_of_comparison:
  fixes a b :: "('a::linorder) list"
  assumes "length a = length b"
  shows "\<exists>sc. compare_degrees a b [] = Inr sc
     \<and> (1 \<in> set sc \<longleftrightarrow> (\<exists>i<length a. a ! i < b ! i))
     \<and> (2 \<in> set sc \<longleftrightarrow> (\<exists>i<length a. a ! i > b ! i))"
proof (intro exI conjI)
  show "compare_degrees a b []
        = Inr (map2 (\<lambda>x y. if x < y then 1 else if x > y then 2 else 0) a b)"
    using compare_degrees_same_length [OF assms, of "[]"] by (simp only: append_Nil)
qed (rule one_in_comparison [OF assms], rule two_in_comparison [OF assms])

lemma nowhere_different:
  fixes a b :: "('a::linorder) list"
  assumes "length a = length b"
  shows "a = b \<longleftrightarrow> \<not> (\<exists>i<length a. a ! i < b ! i) \<and> \<not> (\<exists>i<length a. a ! i > b ! i)"
proof
  assume "a = b"
  then show "\<not> (\<exists>i<length a. a ! i < b ! i) \<and> \<not> (\<exists>i<length a. a ! i > b ! i)" by simp
next
  assume h: "\<not> (\<exists>i<length a. a ! i < b ! i) \<and> \<not> (\<exists>i<length a. a ! i > b ! i)"
  show "a = b"
  proof (rule nth_equalityI)
    show "length a = length b" by fact
  next
    fix i assume "i < length a"
    with h have "\<not> a ! i < b ! i" "\<not> b ! i < a ! i" by auto
    then show "a ! i = b ! i" by (metis not_less_iff_gr_or_eq)
  qed
qed

lemma loop_breaks_iff:
  "loop_breaks sc \<longleftrightarrow> 2 \<in> set sc \<and> 1 \<notin> set sc"
  by (simp add: loop_breaks_def)

lemma is_optimal_loop_result:
  assumes "\<forall>(k, v)\<in>set d. length v = length a"
  shows "is_optimal_loop a d = Inr (\<not> (\<exists>(k, v)\<in>set d. strictly_preferred v a))"
  using assms
proof (induction d)
  case Nil
  then show ?case by simp
next
  case (Cons kv d)
  obtain k v where kv: "kv = (k, v)" by (cases kv)
  with Cons.prems have len: "length a = length v" by simp
  from outcome_of_comparison [OF len] obtain sc where sc:
    "compare_degrees a v [] = Inr sc"
    "1 \<in> set sc \<longleftrightarrow> (\<exists>i<length a. a ! i < v ! i)"
    "2 \<in> set sc \<longleftrightarrow> (\<exists>i<length a. a ! i > v ! i)" by blast
  have b: "loop_breaks sc \<longleftrightarrow> strictly_preferred v a"
    unfolding loop_breaks_iff sc strictly_preferred_def using len by simp
  from Cons have ih: "is_optimal_loop a d = Inr (\<not> (\<exists>(k, v)\<in>set d. strictly_preferred v a))"
    by simp
  show ?case by (simp add: kv sc(1) b ih)
qed


lemma find_degrees_distinct:
  assumes "n1 \<noteq> n2"
  shows "distinct (map fst d) \<Longrightarrow>
     find_degrees n1 n2 d (x, y)
       = (case map_of d n1 of Some a \<Rightarrow> a | None \<Rightarrow> x,
          case map_of d n2 of Some b \<Rightarrow> b | None \<Rightarrow> y)"
proof (induction d arbitrary: x y)
  case Nil
  then show ?case by simp
next
  case (Cons kv d)
  obtain k v where kv: "kv = (k, v)" by (cases kv)
  from Cons.prems kv have d: "distinct (map fst d)" and k: "k \<notin> fst ` set d" by auto
  from k have none: "map_of d k = None" by (simp add: map_of_eq_None_iff)
  show ?case
    using assms none by (auto simp: kv Cons.IH [OF d])
qed

lemma outcome_cases:
  fixes a b :: "('a::linorder) list"
  assumes "length a = length b"
  shows "\<exists>oc. qualitative_outcome a b = Inr oc
     \<and> (oc = FirstPreferred \<longleftrightarrow> strictly_preferred a b)
     \<and> (oc = SecondPreferred \<longleftrightarrow> strictly_preferred b a)
     \<and> (oc = Incomparable \<longleftrightarrow> (\<exists>i<length a. a ! i < b ! i) \<and> (\<exists>i<length a. a ! i > b ! i))
     \<and> (oc = Equal \<longleftrightarrow> a = b)"
proof -
  from outcome_of_comparison [OF assms] obtain sc where sc:
    "compare_degrees a b [] = Inr sc"
    "1 \<in> set sc \<longleftrightarrow> (\<exists>i<length a. a ! i < b ! i)"
    "2 \<in> set sc \<longleftrightarrow> (\<exists>i<length a. a ! i > b ! i)" by blast
  have q: "qualitative_outcome a b = Inr (outcome_of sc)"
    by (simp add: qualitative_outcome_def sc(1))
  have 1: "outcome_of sc = FirstPreferred \<longleftrightarrow> strictly_preferred a b"
    unfolding outcome_of_def strictly_preferred_def sc by auto
  have 2: "outcome_of sc = SecondPreferred \<longleftrightarrow> strictly_preferred b a"
    unfolding outcome_of_def strictly_preferred_def sc using assms by auto
  have 3: "outcome_of sc = Incomparable
           \<longleftrightarrow> (\<exists>i<length a. a ! i < b ! i) \<and> (\<exists>i<length a. a ! i > b ! i)"
    unfolding outcome_of_def sc by simp
  have 4: "outcome_of sc = Equal \<longleftrightarrow> a = b"
    unfolding outcome_of_def sc nowhere_different [OF assms] by simp
  from q 1 2 3 4 show ?thesis by blast
qed

lemma exemplification_line:
  assumes "sample_two rnd (feasible_objects st) = Inr (r1, r2)"
    and "distinct (map fst (object_qualitative_values st))"
    and "get_name (heap st r1) \<noteq> get_name (heap st r2)"
    and "map_of (object_qualitative_values st) (get_name (heap st r1)) = Some a"
    and "map_of (object_qualitative_values st) (get_name (heap st r2)) = Some b"
    and "qualitative_outcome a b = Inr oc"
  shows "qualitative_exemplification rnd st =
    ([''Two randomly selected feasible objects are '' @ get_name (heap st r1) @ '' and ''
        @ get_name (heap st r2) @ '','',
      outcome_line (get_name (heap st r1)) (get_name (heap st r2)) oc], None)"
proof -
  have f: "find_degrees (get_name (heap st r1)) (get_name (heap st r2))
             (object_qualitative_values st) ([], []) = (a, b)"
    using find_degrees_distinct [OF assms(3,2), of "[]" "[]"] assms(4,5) by simp
  from assms(6) obtain sc where "compare_degrees a b [] = Inr sc" "oc = outcome_of sc"
    by (cases "compare_degrees a b []") (auto simp: qualitative_outcome_def)
  then show ?thesis
    by (simp add: qualitative_exemplification_def assms(1) f Let_def)
qed

section \<open>The constructor, step by step\<close>

text \<open>
  The constructor fails with the \<^verbatim>\<open>ValueError\<close> of \<^verbatim>\<open>PrettyTable\<close> when the columns of a
  table are not distinct and with the error of the penalty pass when a penalty is not
  an integer; otherwise every field of the problem it builds is determined.
\<close>

lemma PreferenceProblem_init_steps:
  "PreferenceProblem_init h objs hard pls qls =
     (let feas = filter (\<lambda>r. integers (h r) \<in> set (enum_models hard)) objs in
      if \<not> distinct (''encoding'' # map pl_name pls @ [''total penalty'']) then Inl ValueError
      else case penalty_rows pls feas h [] of
             Inl e \<Rightarrow> Inl e
           | Inr (rows, h') \<Rightarrow>
               if \<not> distinct (''encoding'' # map qcl_name qls) then Inl ValueError
               else Inr \<lparr>heap = h', objects = objs, hard_constraints = hard,
                         penalty_logics = pls, qualitative_logics = qls,
                         object_qualitative_values = snd (qualitative_rows qls h' feas ([], [])),
                         feasible_objects = feas,
                         penalty_logic_table =
                           (''encoding'' # map pl_name pls @ [''total penalty''], rows),
                         qualitative_choice_table =
                           (''encoding'' # map qcl_name qls,
                            fst (qualitative_rows qls h' feas ([], [])))\<rparr>)"
  by (auto simp: PreferenceProblem_init_def check_feasibility_def apply_penalty_logic_def
      apply_qualitative_choice_logic_def PrettyTable_def make_penalty_table_columns_def
      make_qualitative_table_columns_def Let_def return_integer_values_def
      split: sum.splits prod.splits)

lemma init_fields:
  assumes "PreferenceProblem_init h objs hard pls qls = Inr st"
  shows "feasible_objects st = filter (\<lambda>r. integers (h r) \<in> set (enum_models hard)) objs"
    and "qualitative_logics st = qls" and "penalty_logics st = pls"
    and "distinct (''encoding'' # map pl_name pls @ [''total penalty''])"
    and "distinct (''encoding'' # map qcl_name qls)"
    and "penalty_rows pls (feasible_objects st) h [] = Inr (snd (penalty_logic_table st), heap st)"
    and "object_qualitative_values st
           = snd (qualitative_rows qls (heap st) (feasible_objects st) ([], []))"
  using assms unfolding PreferenceProblem_init_steps Let_def
  by (auto split: if_splits sum.splits prod.splits)

section \<open>The penalty scorer\<close>

lemma test_integers_total [simp]:
  "return_test_integers (ob\<lparr>total_penalty := t\<rparr>) = return_test_integers ob"
  by (simp add: return_test_integers_def)

lemma applied_penalty_total [simp]:
  "applied_penalty rule (ob\<lparr>total_penalty := t\<rparr>) = applied_penalty rule ob"
  by (simp add: applied_penalty_def)

lemma returned_penalty_total [simp]:
  "returned_penalty rule (ob\<lparr>total_penalty := t\<rparr>) = returned_penalty rule ob"
  by (simp add: returned_penalty_def)

lemma PenaltyLogic_test_result:
  assumes "py_int (pl_penalty rule) = Inr v"
  shows "PenaltyLogic_test rule r h =
     Inr (returned_penalty rule (h r),
          h(r := (h r)\<lparr>total_penalty := total_penalty (h r) + applied_penalty rule (h r)\<rparr>))"
  using assms
  by (simp add: PenaltyLogic_test_def add_penalty_def returned_penalty_def applied_penalty_def
      Let_def)

lemma PenaltyLogic_test_preserves:
  assumes "PenaltyLogic_test rule r h = Inr (p, h')"
  shows "integers (h' x) = integers (h x) \<and> obj_name (h' x) = obj_name (h x)"
  using assms
  by (auto simp: PenaltyLogic_test_def add_penalty_def Let_def split: if_splits sum.splits)

lemma penalty_row_preserves:
  "penalty_row rules r h row = Inr (row', h') \<Longrightarrow>
   integers (h' x) = integers (h x) \<and> obj_name (h' x) = obj_name (h x)"
proof (induction rules arbitrary: h row)
  case Nil
  then show ?case by simp
next
  case (Cons rule rules)
  from Cons.prems obtain p h1 where t: "PenaltyLogic_test rule r h = Inr (p, h1)"
    and rest: "penalty_row rules r h1 (row @ [p]) = Inr (row', h')"
    by (auto split: sum.splits)
  from Cons.IH [OF rest] PenaltyLogic_test_preserves [OF t, of x] show ?case by simp
qed

lemma penalty_rows_preserves:
  "penalty_rows rules rs h rows = Inr (rows', h') \<Longrightarrow>
   integers (h' x) = integers (h x) \<and> obj_name (h' x) = obj_name (h x)"
proof (induction rs arbitrary: h rows)
  case Nil
  then show ?case by simp
next
  case (Cons r rs)
  from Cons.prems obtain row h1 where t: "penalty_row rules r h [] = Inr (row, h1)"
    and rest: "penalty_rows rules rs h1
        (rows @ [(get_name (h r), row, get_total_penalty (h1 r))]) = Inr (rows', h')"
    by (auto split: sum.splits)
  from Cons.IH [OF rest] penalty_row_preserves [OF t, of x] show ?case by simp
qed

lemma penalty_row_result:
  assumes "\<forall>rule\<in>set rules. \<exists>v. py_int (pl_penalty rule) = Inr v"
  shows "penalty_row rules r h row =
     Inr (row @ map (\<lambda>rule. returned_penalty rule (h r)) rules,
          h(r := (h r)\<lparr>total_penalty := total_penalty (h r)
                 + sum_list (map (\<lambda>rule. applied_penalty rule (h r)) rules)\<rparr>))"
  using assms
proof (induction rules arbitrary: h row)
  case Nil
  then show ?case by simp
next
  case (Cons rule rules)
  then obtain v where v: "py_int (pl_penalty rule) = Inr v" by auto
  from Cons.prems have rest: "\<forall>rule\<in>set rules. \<exists>v. py_int (pl_penalty rule) = Inr v" by simp
  show ?case
    unfolding penalty_row.simps PenaltyLogic_test_result [OF v] Cons.IH [OF rest]
    by (auto simp: add.assoc fun_eq_iff)
qed


lemma scored_names [simp]:
  "get_name (scored rules ob) = get_name ob" "integers (scored rules ob) = integers ob"
  by (simp_all add: scored_def get_name_def)

lemma penalty_rows_result:
  assumes "\<forall>rule\<in>set rules. \<exists>v. py_int (pl_penalty rule) = Inr v"
  shows "distinct rs \<Longrightarrow>
     penalty_rows rules rs h rows =
       Inr (rows @ map (\<lambda>r. (get_name (h r), map (\<lambda>rule. returned_penalty rule (h r)) rules,
                              total_penalty (scored rules (h r)))) rs,
            \<lambda>x. if x \<in> set rs then scored rules (h x) else h x)"
proof (induction rs arbitrary: h rows)
  case Nil
  then show ?case by simp
next
  case (Cons r rs)
  let ?h1 = "h(r := scored rules (h r))"
  have row: "penalty_row rules r h [] =
     Inr (map (\<lambda>rule. returned_penalty rule (h r)) rules, ?h1)"
    using penalty_row_result [OF assms, of r h "[]"] by (simp add: scored_def)
  from Cons.prems have d: "distinct rs" and nr: "r \<notin> set rs" by auto
  show ?case
    unfolding penalty_rows.simps row Cons.IH [OF d]
    using nr by (auto simp: fun_eq_iff get_total_penalty_def)
qed


lemma returned_applied:
  "py_int (pl_penalty rule) = Inr v \<Longrightarrow>
   py_int (returned_penalty rule ob) = Inr (applied_penalty rule ob)"
  by (simp add: returned_penalty_def applied_penalty_def)

lemma test_twice:
  assumes "py_int (pl_penalty rule) = Inr v"
  shows "\<exists>p h1 h2. PenaltyLogic_test rule r h = Inr (p, h1)
     \<and> PenaltyLogic_test rule r h1 = Inr (p, h2)
     \<and> total_penalty (h2 r) = total_penalty (h r) + 2 * applied_penalty rule (h r)"
  unfolding PenaltyLogic_test_result [OF assms] by simp

lemma PenaltyLogic_test_Inr:
  assumes "PenaltyLogic_test rule r h = Inr (p, h')"
  shows "p = returned_penalty rule (h r)
     \<and> h' = h(r := (h r)\<lparr>total_penalty := total_penalty (h r) + applied_penalty rule (h r)\<rparr>)"
  using assms
  by (auto simp: PenaltyLogic_test_def add_penalty_def returned_penalty_def applied_penalty_def
      Let_def split: if_splits sum.splits)

lemma penalty_row_Inr:
  "penalty_row rules r h row = Inr (row', h') \<Longrightarrow>
   row' = row @ map (\<lambda>rule. returned_penalty rule (h r)) rules
   \<and> h' = h(r := (h r)\<lparr>total_penalty := total_penalty (h r)
                 + sum_list (map (\<lambda>rule. applied_penalty rule (h r)) rules)\<rparr>)"
proof (induction rules arbitrary: h row)
  case Nil
  then show ?case by simp
next
  case (Cons rule rules)
  from Cons.prems obtain p h1 where t: "PenaltyLogic_test rule r h = Inr (p, h1)"
    and rest: "penalty_row rules r h1 (row @ [p]) = Inr (row', h')"
    by (auto split: sum.splits)
  from PenaltyLogic_test_Inr [OF t] Cons.IH [OF rest] show ?case
    by (auto simp: add.assoc fun_eq_iff)
qed

lemma penalty_rows_Inr:
  "distinct rs \<Longrightarrow> penalty_rows rules rs h rows = Inr (rows', h') \<Longrightarrow>
   rows' = rows @ map (\<lambda>r. (get_name (h r), map (\<lambda>rule. returned_penalty rule (h r)) rules,
                              total_penalty (scored rules (h r)))) rs
   \<and> h' = (\<lambda>x. if x \<in> set rs then scored rules (h x) else h x)"
proof (induction rs arbitrary: h rows)
  case Nil
  then show ?case by simp
next
  case (Cons r rs)
  let ?h1 = "h(r := scored rules (h r))"
  from Cons.prems(2) obtain row h1 where t: "penalty_row rules r h [] = Inr (row, h1)"
    and rest: "penalty_rows rules rs h1
        (rows @ [(get_name (h r), row, get_total_penalty (h1 r))]) = Inr (rows', h')"
    by (auto split: sum.splits)
  from penalty_row_Inr [OF t]
  have row: "row = map (\<lambda>rule. returned_penalty rule (h r)) rules" and h1: "h1 = ?h1"
    by (simp_all add: scored_def)
  from Cons.prems(1) have d: "distinct rs" and nr: "r \<notin> set rs" by auto
  from Cons.IH [OF d rest] nr show ?case
    unfolding row h1 by (auto simp: fun_eq_iff get_total_penalty_def)
qed

lemma apply_penalty_logic_result:
  assumes "distinct (feasible_objects st)"
    and "\<forall>rule\<in>set (penalty_logics st). \<exists>v. py_int (pl_penalty rule) = Inr v"
    and "distinct (make_penalty_table_columns st)"
  shows "\<exists>table st'. apply_penalty_logic st = Inr (table, st')
     \<and> (\<forall>r\<in>set (feasible_objects st).
           total_penalty (heap st' r) = total_penalty (heap st r)
             + sum_list (map (\<lambda>rule. applied_penalty rule (heap st r)) (penalty_logics st)))
     \<and> (\<forall>r. r \<notin> set (feasible_objects st) \<longrightarrow> heap st' r = heap st r)
     \<and> fst table = ''encoding'' # map pl_name (penalty_logics st) @ [''total penalty'']
     \<and> snd table = map (\<lambda>r. (get_name (heap st r),
                               map (\<lambda>rule. returned_penalty rule (heap st r)) (penalty_logics st),
                               total_penalty (heap st' r))) (feasible_objects st)"
proof -
  from assms(3) have "apply_penalty_logic st =
     (case penalty_rows (penalty_logics st) (feasible_objects st) (heap st) [] of
        Inl e \<Rightarrow> Inl e
      | Inr (rows, h') \<Rightarrow> Inr ((make_penalty_table_columns st, rows), st\<lparr>heap := h'\<rparr>))"
    by (simp add: apply_penalty_logic_def PrettyTable_def)
  then show ?thesis
    unfolding penalty_rows_result [OF assms(2,1), of "heap st" "[]"]
    by (simp add: scored_def make_penalty_table_columns_def)
qed

lemma apply_penalty_logic_duplicate:
  "\<not> distinct (make_penalty_table_columns st) \<Longrightarrow> apply_penalty_logic st = Inl ValueError"
  by (simp add: apply_penalty_logic_def PrettyTable_def)

lemma init_penalty_totals:
  assumes st: "PreferenceProblem_init h objs hard pls qls = Inr st"
    and d: "distinct objs"
  shows "heap st = (\<lambda>x. if x \<in> set (feasible_objects st) then scored pls (h x) else h x)"
    and "snd (penalty_logic_table st)
           = map (\<lambda>r. (get_name (h r), map (\<lambda>rule. returned_penalty rule (h r)) pls,
                        total_penalty (scored pls (h r)))) (feasible_objects st)"
proof -
  from d have "distinct (feasible_objects st)"
    unfolding init_fields(1) [OF st] by simp
  from penalty_rows_Inr [OF this init_fields(6) [OF st]]
  show "heap st = (\<lambda>x. if x \<in> set (feasible_objects st) then scored pls (h x) else h x)"
    and "snd (penalty_logic_table st)
           = map (\<lambda>r. (get_name (h r), map (\<lambda>rule. returned_penalty rule (h r)) pls,
                        total_penalty (scored pls (h r)))) (feasible_objects st)"
    by simp_all
qed

text \<open>
  C5. For a rule whose penalty denotes an integer: a test returns 0 when the rule's
  clauses hold together with the object's unit clauses and the rule's own penalty
  otherwise, and adds the integer of the returned value to the object's total; a second
  test of the same rule on the same object adds it again. (When the clauses hold, the
  test returns 0 and leaves the object as it is whatever the penalty text is.) The pass
  that builds the
  penalty table creates the table first, which fails with \<^verbatim>\<open>ValueError\<close> when two columns
  have the same name (two rules with the same text, or a rule called \<^verbatim>\<open>encoding\<close> or
  \<^verbatim>\<open>total penalty\<close>); with distinct column names, distinct feasible objects and penalties
  that denote integers it succeeds, the total of every feasible object has grown by the
  sum of the applied penalties of all rules, every other object is untouched, and each
  row shows the returned penalties and the total reached. A new object starts with total
  0, so in every problem the constructor builds from distinct objects, the total of a
  feasible object is its total before plus the sum over all rules of the applied
  penalty (the sum itself for new objects), and an infeasible object is left as it was.
\<close>

theorem penalty_scoring:
  "(\<forall>v. py_int (pl_penalty rule) = Inr v \<longrightarrow>
      PenaltyLogic_test rule r h =
        Inr (returned_penalty rule (h r),
             h(r := (h r)\<lparr>total_penalty := total_penalty (h r) + applied_penalty rule (h r)\<rparr>))
      \<and> py_int (returned_penalty rule (h r)) = Inr (applied_penalty rule (h r))
      \<and> (solve (pl_constraint rule @ return_test_integers (h r)) \<longrightarrow>
           returned_penalty rule (h r) = PyInt 0 \<and> applied_penalty rule (h r) = 0)
      \<and> (\<not> solve (pl_constraint rule @ return_test_integers (h r)) \<longrightarrow>
           returned_penalty rule (h r) = pl_penalty rule \<and> applied_penalty rule (h r) = v)
      \<and> (\<exists>p h1 h2. PenaltyLogic_test rule r h = Inr (p, h1)
           \<and> PenaltyLogic_test rule r h1 = Inr (p, h2)
           \<and> total_penalty (h2 r) = total_penalty (h r) + 2 * applied_penalty rule (h r)))
   \<and> (solve (pl_constraint rule @ return_test_integers (h r)) \<longrightarrow>
        PenaltyLogic_test rule r h = Inr (PyInt 0, h))
   \<and> (\<not> distinct (''encoding'' # map pl_name (penalty_logics st) @ [''total penalty'']) \<longrightarrow>
        apply_penalty_logic st = Inl ValueError)
   \<and> (distinct (''encoding'' # map pl_name (penalty_logics st) @ [''total penalty''])
       \<and> distinct (feasible_objects st)
       \<and> (\<forall>rule\<in>set (penalty_logics st). \<exists>v. py_int (pl_penalty rule) = Inr v) \<longrightarrow>
       (\<exists>table st'. apply_penalty_logic st = Inr (table, st')
         \<and> (\<forall>r\<in>set (feasible_objects st).
               total_penalty (heap st' r) = total_penalty (heap st r)
                 + sum_list (map (\<lambda>rule. applied_penalty rule (heap st r)) (penalty_logics st)))
         \<and> (\<forall>r. r \<notin> set (feasible_objects st) \<longrightarrow> heap st' r = heap st r)
         \<and> fst table = ''encoding'' # map pl_name (penalty_logics st) @ [''total penalty'']
         \<and> snd table = map (\<lambda>r. (get_name (heap st r),
                               map (\<lambda>rule. returned_penalty rule (heap st r)) (penalty_logics st),
                               total_penalty (heap st' r))) (feasible_objects st)))
   \<and> total_penalty (new_object name enc vals ints) = 0
   \<and> (\<forall>built. PreferenceProblem_init store objs hard pls qls = Inr built \<and> distinct objs \<longrightarrow>
        (\<forall>r\<in>set (feasible_objects built).
           total_penalty (heap built r)
             = total_penalty (store r) + sum_list (map (\<lambda>rule. applied_penalty rule (store r)) pls))
        \<and> (\<forall>r. r \<notin> set (feasible_objects built) \<longrightarrow> heap built r = store r)
        \<and> snd (penalty_logic_table built)
            = map (\<lambda>r. (get_name (store r), map (\<lambda>rule. returned_penalty rule (store r)) pls,
                         total_penalty (heap built r))) (feasible_objects built))"
proof -
  have A: "PenaltyLogic_test rule r h =
        Inr (returned_penalty rule (h r),
             h(r := (h r)\<lparr>total_penalty := total_penalty (h r) + applied_penalty rule (h r)\<rparr>))
      \<and> py_int (returned_penalty rule (h r)) = Inr (applied_penalty rule (h r))
      \<and> (solve (pl_constraint rule @ return_test_integers (h r)) \<longrightarrow>
           returned_penalty rule (h r) = PyInt 0 \<and> applied_penalty rule (h r) = 0)
      \<and> (\<not> solve (pl_constraint rule @ return_test_integers (h r)) \<longrightarrow>
           returned_penalty rule (h r) = pl_penalty rule \<and> applied_penalty rule (h r) = v)
      \<and> (\<exists>p h1 h2. PenaltyLogic_test rule r h = Inr (p, h1)
           \<and> PenaltyLogic_test rule r h1 = Inr (p, h2)
           \<and> total_penalty (h2 r) = total_penalty (h r) + 2 * applied_penalty rule (h r))"
    if v: "py_int (pl_penalty rule) = Inr v" for v
    using PenaltyLogic_test_result [OF v, of r h] returned_applied [OF v, of "h r"]
      test_twice [OF v, of r h] v
    by (simp add: returned_penalty_def applied_penalty_def)
  have S: "PenaltyLogic_test rule r h = Inr (PyInt 0, h)"
    if "solve (pl_constraint rule @ return_test_integers (h r))"
    using that by (simp add: PenaltyLogic_test_def add_penalty_def Let_def)
  have B: "apply_penalty_logic st = Inl ValueError"
    if "\<not> distinct (''encoding'' # map pl_name (penalty_logics st) @ [''total penalty''])"
    using that apply_penalty_logic_duplicate [of st]
    by (simp add: make_penalty_table_columns_def)
  have C: "\<exists>table st'. apply_penalty_logic st = Inr (table, st')
         \<and> (\<forall>r\<in>set (feasible_objects st).
               total_penalty (heap st' r) = total_penalty (heap st r)
                 + sum_list (map (\<lambda>rule. applied_penalty rule (heap st r)) (penalty_logics st)))
         \<and> (\<forall>r. r \<notin> set (feasible_objects st) \<longrightarrow> heap st' r = heap st r)
         \<and> fst table = ''encoding'' # map pl_name (penalty_logics st) @ [''total penalty'']
         \<and> snd table = map (\<lambda>r. (get_name (heap st r),
                               map (\<lambda>rule. returned_penalty rule (heap st r)) (penalty_logics st),
                               total_penalty (heap st' r))) (feasible_objects st)"
    if "distinct (''encoding'' # map pl_name (penalty_logics st) @ [''total penalty''])
       \<and> distinct (feasible_objects st)
       \<and> (\<forall>rule\<in>set (penalty_logics st). \<exists>v. py_int (pl_penalty rule) = Inr v)"
    using that apply_penalty_logic_result [of st]
    by (simp add: make_penalty_table_columns_def)
  have D: "total_penalty (new_object name enc vals ints) = 0"
    by (simp add: new_object_def)
  have E: "(\<forall>r\<in>set (feasible_objects built).
           total_penalty (heap built r)
             = total_penalty (store r) + sum_list (map (\<lambda>rule. applied_penalty rule (store r)) pls))
        \<and> (\<forall>r. r \<notin> set (feasible_objects built) \<longrightarrow> heap built r = store r)
        \<and> snd (penalty_logic_table built)
            = map (\<lambda>r. (get_name (store r), map (\<lambda>rule. returned_penalty rule (store r)) pls,
                         total_penalty (heap built r))) (feasible_objects built)"
    if "PreferenceProblem_init store objs hard pls qls = Inr built \<and> distinct objs" for built
  proof -
    from that have b: "PreferenceProblem_init store objs hard pls qls = Inr built"
      and d: "distinct objs" by simp_all
    note i = init_penalty_totals [OF b d]
    show ?thesis
      unfolding i(2) by (subst (1 2 3) i(1)) (simp add: scored_def)
  qed
  from A S B C D E show ?thesis by blast
qed

theorem penalty_scoring_witness:
  "PenaltyLogic_test ex_big 1 ex_store
     = Inr (PyStr ''5'', ex_store(1 := ex_o1\<lparr>total_penalty := 5\<rparr>))
   \<and> PenaltyLogic_test ex_red 1 ex_store = Inr (PyInt 0, ex_store)
   \<and> map_sum id (\<lambda>(table, st'). (snd table, map (\<lambda>r. total_penalty (heap st' r)) [0, 1, 2, 3]))
        (apply_penalty_logic ex_scoring)
     = Inr ([(''o1'', [PyStr ''5'', PyInt 0], 5), (''o2'', [PyInt 0, PyStr ''3''], 3),
             (''o3'', [PyInt 0, PyInt 0], 0)], [0, 5, 3, 0])
   \<and> apply_penalty_logic (ex_scoring\<lparr>penalty_logics := [ex_big, ex_big]\<rparr>) = Inl ValueError
   \<and> map_sum id (\<lambda>built. (map (\<lambda>r. total_penalty (heap built r)) [0, 1, 2, 3],
                            snd (penalty_logic_table built)))
        (PreferenceProblem_init ex_store [0, 1, 2, 3] [[1, 2], [- 1, 1], [- 2, 2]]
           [ex_big, ex_red] [ex_rule])
     = Inr ([0, 5, 3, 0],
            [(''o1'', [PyStr ''5'', PyInt 0], 5), (''o2'', [PyInt 0, PyStr ''3''], 3),
             (''o3'', [PyInt 0, PyInt 0], 0)])"
proof -
  let ?hard = "[[1, 2], [- 1, 1], [- 2, 2 :: int]]"
  note t = penalty_scoring [where rule = ex_big and r = 1 and h = ex_store and st = ex_scoring
      and store = ex_store and objs = "[0, 1, 2, 3]" and hard = ?hard
      and pls = "[ex_big, ex_red]" and qls = "[ex_rule]"]
  note u = penalty_scoring [where st = "ex_scoring\<lparr>penalty_logics := [ex_big, ex_big]\<rparr>"]
  have v: "py_int (pl_penalty ex_big) = Inr 5" "py_int (pl_penalty ex_red) = Inr 3"
    by code_simp+
  have s: "\<not> solve (pl_constraint ex_big @ return_test_integers (ex_store 1))"
    by code_simp
  have "solve (pl_constraint ex_red @ return_test_integers (ex_store 1))"
    by code_simp
  with penalty_scoring [where rule = ex_red and r = 1 and h = ex_store]
  have 2: "PenaltyLogic_test ex_red 1 ex_store = Inr (PyInt 0, ex_store)"
    by blast
  have o: "ex_store (Suc 0) = ex_o1" "total_penalty ex_o1 = 0" "pl_penalty ex_big = PyStr ''5''"
    by (simp_all add: ex_store_def ex_o1_def new_object_def ex_big_def)
  from t v(1) s have 1: "PenaltyLogic_test ex_big 1 ex_store =
        Inr (pl_penalty ex_big,
             ex_store(1 := (ex_store 1)\<lparr>total_penalty := total_penalty (ex_store 1) + 5\<rparr>))"
    by simp
  have d: "distinct (''encoding'' # map pl_name (penalty_logics ex_scoring) @ [''total penalty''])
       \<and> distinct (feasible_objects ex_scoring)
       \<and> (\<forall>rule\<in>set (penalty_logics ex_scoring). \<exists>v. py_int (pl_penalty rule) = Inr v)"
    using v by (simp add: ex_scoring_def ex_big_def ex_red_def)
  have a: "applied_penalty ex_big (ex_store (Suc 0)) = 5" "applied_penalty ex_red (ex_store (Suc 0)) = 0"
    "applied_penalty ex_big (ex_store 2) = 0" "applied_penalty ex_red (ex_store 2) = 3"
    "applied_penalty ex_big (ex_store 3) = 0" "applied_penalty ex_red (ex_store 3) = 0"
    by code_simp+
  have r: "returned_penalty ex_big (ex_store (Suc 0)) = PyStr ''5''"
    "returned_penalty ex_red (ex_store (Suc 0)) = PyInt 0"
    "returned_penalty ex_big (ex_store 2) = PyInt 0"
    "returned_penalty ex_red (ex_store 2) = PyStr ''3''"
    "returned_penalty ex_big (ex_store 3) = PyInt 0"
    "returned_penalty ex_red (ex_store 3) = PyInt 0"
    by code_simp+
  have n: "get_name (ex_store (Suc 0)) = ''o1''" "get_name (ex_store 2) = ''o2''"
    "get_name (ex_store 3) = ''o3''" "total_penalty (ex_store 0) = 0"
    "total_penalty (ex_store (Suc 0)) = 0" "total_penalty (ex_store 2) = 0"
    "total_penalty (ex_store 3) = 0"
    by (simp_all add: ex_store_def get_name_def new_object_def ex_o1_def ex_o3_def)
  from t d obtain table st' where p: "apply_penalty_logic ex_scoring = Inr (table, st')"
    "\<forall>r\<in>set (feasible_objects ex_scoring).
       total_penalty (heap st' r) = total_penalty (heap ex_scoring r)
         + sum_list (map (\<lambda>rule. applied_penalty rule (heap ex_scoring r)) (penalty_logics ex_scoring))"
    "\<forall>r. r \<notin> set (feasible_objects ex_scoring) \<longrightarrow> heap st' r = heap ex_scoring r"
    "snd table = map (\<lambda>r. (get_name (heap ex_scoring r),
         map (\<lambda>rule. returned_penalty rule (heap ex_scoring r)) (penalty_logics ex_scoring),
         total_penalty (heap st' r))) (feasible_objects ex_scoring)"
    by blast
  have f: "feasible_objects ex_scoring = [1, 2, 3]" "penalty_logics ex_scoring = [ex_big, ex_red]"
    "heap ex_scoring = ex_store"
    by (simp_all add: ex_scoring_def)
  from p(2) have tot: "total_penalty (heap st' (Suc 0)) = 5" "total_penalty (heap st' 2) = 3"
    "total_penalty (heap st' 3) = 0"
    unfolding f by (simp_all add: a n)
  from p(3) have t0: "total_penalty (heap st' 0) = 0"
    unfolding f by (simp add: n)
  from p(4) have rows: "snd table = [(''o1'', [PyStr ''5'', PyInt 0], 5),
      (''o2'', [PyInt 0, PyStr ''3''], 3), (''o3'', [PyInt 0, PyInt 0], 0)]"
    unfolding f by (simp add: r n tot)
  have "\<not> distinct (''encoding''
      # map pl_name (penalty_logics (ex_scoring\<lparr>penalty_logics := [ex_big, ex_big]\<rparr>))
      @ [''total penalty''])"
    by simp
  with u have 3: "apply_penalty_logic (ex_scoring\<lparr>penalty_logics := [ex_big, ex_big]\<rparr>)
      = Inl ValueError"
    by blast
  have "map_sum id feasible_objects
     (PreferenceProblem_init ex_store [0, 1, 2, 3] ?hard [ex_big, ex_red] [ex_rule])
       = Inr [1, 2, 3]"
    by code_simp
  then obtain built where b:
    "PreferenceProblem_init ex_store [0, 1, 2, 3] ?hard [ex_big, ex_red] [ex_rule] = Inr built"
    "feasible_objects built = [1, 2, 3]"
    by (cases "PreferenceProblem_init ex_store [0, 1, 2, 3] ?hard [ex_big, ex_red] [ex_rule]")
       auto
  from t b(1) have c: "\<forall>r\<in>set (feasible_objects built).
           total_penalty (heap built r)
             = total_penalty (ex_store r)
               + sum_list (map (\<lambda>rule. applied_penalty rule (ex_store r)) [ex_big, ex_red])"
    "\<forall>r. r \<notin> set (feasible_objects built) \<longrightarrow> heap built r = ex_store r"
    "snd (penalty_logic_table built)
       = map (\<lambda>r. (get_name (ex_store r), map (\<lambda>rule. returned_penalty rule (ex_store r))
                      [ex_big, ex_red],
                    total_penalty (heap built r))) (feasible_objects built)"
    by simp_all
  from c(1) have btot: "total_penalty (heap built (Suc 0)) = 5" "total_penalty (heap built 2) = 3"
    "total_penalty (heap built 3) = 0"
    unfolding b(2) by (simp_all add: a n)
  from c(2) have b0: "total_penalty (heap built 0) = 0"
    unfolding b(2) by (simp add: n)
  from c(3) have brows: "snd (penalty_logic_table built) = [(''o1'', [PyStr ''5'', PyInt 0], 5),
      (''o2'', [PyInt 0, PyStr ''3''], 3), (''o3'', [PyInt 0, PyInt 0], 0)]"
    unfolding b(2) by (simp add: r n btot)
  show ?thesis
    unfolding 1 2 p(1) 3 b(1) by (simp add: o rows tot t0 btot b0 brows)
qed

section \<open>Feasibility\<close>

lemma all_vectors_iff:
  "m \<in> set (all_vectors n) \<longleftrightarrow>
     length m = n \<and> (\<forall>i<length m. m ! i = int (Suc i) \<or> m ! i = - int (Suc i))"
proof (induction n arbitrary: m)
  case 0
  then show ?case by auto
next
  case (Suc n)
  show ?case
  proof
    assume "m \<in> set (all_vectors (Suc n))"
    then obtain m' where m': "m' \<in> set (all_vectors n)"
      "m = m' @ [int (Suc n)] \<or> m = m' @ [- int (Suc n)]" by auto
    with Suc.IH [of m'] have l: "length m' = n"
      and v: "\<forall>i<n. m' ! i = int (Suc i) \<or> m' ! i = - int (Suc i)" by auto
    from m'(2) l have len: "length m = Suc n" by auto
    have "m ! i = int (Suc i) \<or> m ! i = - int (Suc i)" if "i < Suc n" for i
    proof (cases "i < n")
      case True
      with m'(2) l v show ?thesis by (auto simp: nth_append)
    next
      case False
      with that have "i = n" by simp
      with m'(2) l show ?thesis by (auto simp: nth_append)
    qed
    with len show "length m = Suc n \<and> (\<forall>i<length m. m ! i = int (Suc i) \<or> m ! i = - int (Suc i))"
      by simp
  next
    assume a: "length m = Suc n \<and> (\<forall>i<length m. m ! i = int (Suc i) \<or> m ! i = - int (Suc i))"
    then obtain m' x where mx: "m = m' @ [x]" by (cases m rule: rev_cases) auto
    with a have l: "length m' = n" by simp
    have "\<forall>i<length m'. m' ! i = int (Suc i) \<or> m' ! i = - int (Suc i)"
    proof (intro allI impI)
      fix i assume i: "i < length m'"
      then have "i < length m" using mx by simp
      with a have "m ! i = int (Suc i) \<or> m ! i = - int (Suc i)" by blast
      moreover have "m ! i = m' ! i" using mx i by (simp add: nth_append)
      ultimately show "m' ! i = int (Suc i) \<or> m' ! i = - int (Suc i)" by simp
    qed
    with l Suc.IH [of m'] have in': "m' \<in> set (all_vectors n)" by simp
    from a mx l have "x = int (Suc n) \<or> x = - int (Suc n)"
      by (metis lessI nth_append_length)
    with in' mx show "m \<in> set (all_vectors (Suc n))" by auto
  qed
qed

lemma enum_models_iff:
  "m \<in> set (enum_models cs) \<longleftrightarrow>
     length m = nof_vars cs
     \<and> (\<forall>i<length m. m ! i = int (Suc i) \<or> m ! i = - int (Suc i))
     \<and> (\<forall>c\<in>set cs. \<exists>l\<in>set c. l \<in> set m)"
  by (auto simp: enum_models_def all_vectors_iff is_model_def list_all_iff list_ex_iff)

lemma check_feasibility_members:
  "feasible_objects st0 = [] \<Longrightarrow>
   r \<in> set (feasible_objects (check_feasibility st0)) \<longleftrightarrow>
     r \<in> set (objects st0)
     \<and> return_integer_values (heap st0 r) \<in> set (enum_models (hard_constraints st0))"
  by (auto simp: check_feasibility_def Let_def)

lemma check_feasibility_unsat:
  "feasible_objects st0 = [] \<Longrightarrow> \<not> solve (hard_constraints st0) \<Longrightarrow>
   feasible_objects (check_feasibility st0) = []
   \<and> return_feasibility (check_feasibility st0) = ''No feasible objects.''"
  by (simp add: check_feasibility_def solve_def return_feasibility_def)

lemma init_feasible:
  assumes "PreferenceProblem_init h objs hard pls qls = Inr st"
  shows "feasible_objects st = filter (\<lambda>r. integers (h r) \<in> set (enum_models hard)) objs"
    "integers (heap st x) = integers (h x)" "obj_name (heap st x) = obj_name (h x)"
    "qualitative_logics st = qls"
proof -
  note f = init_fields [OF assms]
  show "feasible_objects st = filter (\<lambda>r. integers (h r) \<in> set (enum_models hard)) objs"
    by (rule f(1))
  from penalty_rows_preserves [OF f(6), of x]
  show "integers (heap st x) = integers (h x)" "obj_name (heap st x) = obj_name (h x)"
    by simp_all
  show "qualitative_logics st = qls" by (rule f(2))
qed

lemma init_unsat:
  assumes "\<not> solve hard"
  shows "PreferenceProblem_init h objs hard pls qls =
     (if distinct (''encoding'' # map pl_name pls @ [''total penalty''])
         \<and> distinct (''encoding'' # map qcl_name qls)
      then Inr \<lparr>heap = h, objects = objs, hard_constraints = hard,
                penalty_logics = pls, qualitative_logics = qls,
                object_qualitative_values = [], feasible_objects = [],
                penalty_logic_table = (''encoding'' # map pl_name pls @ [''total penalty''], []),
                qualitative_choice_table = (''encoding'' # map qcl_name qls, [])\<rparr>
      else Inl ValueError)"
proof -
  from assms have e: "enum_models hard = []" by (simp add: solve_def)
  show ?thesis
    unfolding PreferenceProblem_init_steps e by (simp add: Let_def)
qed

text \<open>
  C4. In a constructed problem an object is feasible iff it is one of the given
  objects and its integer vector equals, element for element, one of the models the
  solver enumerates for the hard constraints (the integers of an object never change).
  These models are the sign vectors over the variables 1 to n that contain a literal
  of every clause. When the hard constraints are unsatisfiable, \<^verbatim>\<open>check_feasibility\<close>
  leaves the feasible list empty and \<^verbatim>\<open>return_feasibility\<close> prints
  \<^verbatim>\<open>No feasible objects.\<close>; neither raises. The constructor of such a problem tests no
  rule: it succeeds, with an empty feasible list, no object changed and that report,
  exactly when the column names of both tables are distinct, and otherwise it ends in
  the \<^verbatim>\<open>ValueError\<close> of the table library, which has nothing to do with feasibility.
\<close>

theorem feasible_iff_model:
  "(\<forall>st. PreferenceProblem_init h objs hard pls qls = Inr st \<longrightarrow>
      (\<forall>r. r \<in> set (feasible_objects st) \<longleftrightarrow>
         r \<in> set objs
         \<and> (\<exists>m\<in>set (enum_models hard).
               length (integers (h r)) = length m
               \<and> (\<forall>i<length m. integers (h r) ! i = m ! i)))
      \<and> (\<forall>r. integers (heap st r) = integers (h r)))
   \<and> (\<forall>m. m \<in> set (enum_models hard) \<longleftrightarrow>
         length m = nof_vars hard
         \<and> (\<forall>i<length m. m ! i = int (Suc i) \<or> m ! i = - int (Suc i))
         \<and> (\<forall>c\<in>set hard. \<exists>l\<in>set c. l \<in> set m))
   \<and> (feasible_objects st0 = [] \<longrightarrow>
        (\<forall>r. r \<in> set (feasible_objects (check_feasibility st0)) \<longleftrightarrow>
           r \<in> set (objects st0)
           \<and> return_integer_values (heap st0 r) \<in> set (enum_models (hard_constraints st0))))
   \<and> (feasible_objects st0 = [] \<and> \<not> solve (hard_constraints st0) \<longrightarrow>
        feasible_objects (check_feasibility st0) = []
        \<and> return_feasibility (check_feasibility st0) = ''No feasible objects.'')
   \<and> (\<not> solve hard \<longrightarrow>
        (\<forall>st. PreferenceProblem_init h objs hard pls qls = Inr st \<longrightarrow>
           feasible_objects st = [] \<and> heap st = h
           \<and> return_feasibility st = ''No feasible objects.'')
        \<and> (distinct (''encoding'' # map pl_name pls @ [''total penalty''])
            \<and> distinct (''encoding'' # map qcl_name qls) \<longrightarrow>
            (\<exists>st. PreferenceProblem_init h objs hard pls qls = Inr st))
        \<and> (\<not> (distinct (''encoding'' # map pl_name pls @ [''total penalty''])
               \<and> distinct (''encoding'' # map qcl_name qls)) \<longrightarrow>
            PreferenceProblem_init h objs hard pls qls = Inl ValueError))"
proof -
  have A: "(\<forall>r. r \<in> set (feasible_objects st) \<longleftrightarrow>
         r \<in> set objs
         \<and> (\<exists>m\<in>set (enum_models hard).
               length (integers (h r)) = length m
               \<and> (\<forall>i<length m. integers (h r) ! i = m ! i)))
      \<and> (\<forall>r. integers (heap st r) = integers (h r))"
    if st: "PreferenceProblem_init h objs hard pls qls = Inr st" for st
  proof -
    have "integers (h r) \<in> set (enum_models hard) \<longleftrightarrow>
      (\<exists>m\<in>set (enum_models hard).
                 length (integers (h r)) = length m
                 \<and> (\<forall>i<length m. integers (h r) ! i = m ! i))" for r
      by (metis nth_equalityI)
    then have "r \<in> set (feasible_objects st) \<longleftrightarrow>
           r \<in> set objs
           \<and> (\<exists>m\<in>set (enum_models hard).
                 length (integers (h r)) = length m
                 \<and> (\<forall>i<length m. integers (h r) ! i = m ! i))" for r
      unfolding init_feasible(1) [OF st] by simp
    with init_feasible(2) [OF st] show ?thesis by blast
  qed
  have B: "m \<in> set (enum_models hard) \<longleftrightarrow>
         length m = nof_vars hard
         \<and> (\<forall>i<length m. m ! i = int (Suc i) \<or> m ! i = - int (Suc i))
         \<and> (\<forall>c\<in>set hard. \<exists>l\<in>set c. l \<in> set m)" for m
    by (rule enum_models_iff)
  have C: "r \<in> set (feasible_objects (check_feasibility st0)) \<longleftrightarrow>
           r \<in> set (objects st0)
           \<and> return_integer_values (heap st0 r) \<in> set (enum_models (hard_constraints st0))"
    if "feasible_objects st0 = []" for r
    using that by (rule check_feasibility_members)
  have D: "feasible_objects (check_feasibility st0) = []
        \<and> return_feasibility (check_feasibility st0) = ''No feasible objects.''"
    if "feasible_objects st0 = [] \<and> \<not> solve (hard_constraints st0)"
    using that check_feasibility_unsat [of st0] by blast
  have E: "(\<forall>st. PreferenceProblem_init h objs hard pls qls = Inr st \<longrightarrow>
           feasible_objects st = [] \<and> heap st = h
           \<and> return_feasibility st = ''No feasible objects.'')
        \<and> (distinct (''encoding'' # map pl_name pls @ [''total penalty''])
            \<and> distinct (''encoding'' # map qcl_name qls) \<longrightarrow>
            (\<exists>st. PreferenceProblem_init h objs hard pls qls = Inr st))
        \<and> (\<not> (distinct (''encoding'' # map pl_name pls @ [''total penalty''])
               \<and> distinct (''encoding'' # map qcl_name qls)) \<longrightarrow>
            PreferenceProblem_init h objs hard pls qls = Inl ValueError)"
    if u: "\<not> solve hard"
    unfolding init_unsat [OF u]
    by (auto simp: return_feasibility_def split: if_splits)
  from A B C D E show ?thesis by blast
qed


theorem feasible_iff_model_witness:
  "map_sum id feasible_objects
     (PreferenceProblem_init ex_store [0, 1, 2, 3] [[1, 2], [- 1, 1], [- 2, 2]]
        [ex_big, ex_red] [ex_rule]) = Inr [1, 2, 3]
   \<and> enum_models [[1, 2], [- 1, 1], [- 2, 2]] = [[1, 2], [1, - 2], [- 1, 2]]
   \<and> integers (ex_store 2) = [1, - 2] \<and> integers (ex_store 0) = [- 1, - 2]
   \<and> \<not> solve [[1], [- 1], [- 2, 2]]
   \<and> map_sum id return_feasibility
       (PreferenceProblem_init ex_store [0, 1, 2, 3] [[1], [- 1], [- 2, 2]]
          [ex_big, ex_red] [ex_rule]) = Inr ''No feasible objects.''
   \<and> PreferenceProblem_init ex_store [0, 1, 2, 3] [[1], [- 1], [- 2, 2]]
          [ex_big, ex_big] [ex_rule] = Inl ValueError
   \<and> return_feasibility (check_feasibility (ex_scoring\<lparr>hard_constraints := [[1], [- 1], [- 2, 2]],
         feasible_objects := []\<rparr>)) = ''No feasible objects.''"
proof -
  let ?hard = "[[1, 2], [- 1, 1], [- 2, 2 :: int]]"
  let ?unsat = "[[1], [- 1], [- 2, 2 :: int]]"
  let ?start = "ex_scoring\<lparr>hard_constraints := ?unsat, feasible_objects := []\<rparr>"
  note t = feasible_iff_model [of ex_store "[0, 1, 2, 3]" ?hard "[ex_big, ex_red]" "[ex_rule]"]
  note u = feasible_iff_model [of ex_store "[0, 1, 2, 3]" ?unsat "[ex_big, ex_red]" "[ex_rule]"
      ?start]
  note w = feasible_iff_model [of ex_store "[0, 1, 2, 3]" ?unsat "[ex_big, ex_big]" "[ex_rule]"]
  have f: "map_sum id feasible_objects
     (PreferenceProblem_init ex_store [0, 1, 2, 3] ?hard [ex_big, ex_red] [ex_rule])
       = Inr [1, 2, 3]"
    by code_simp
  then obtain st where st:
    "PreferenceProblem_init ex_store [0, 1, 2, 3] ?hard [ex_big, ex_red] [ex_rule] = Inr st"
    "feasible_objects st = [1, 2, 3]"
    by (cases "PreferenceProblem_init ex_store [0, 1, 2, 3] ?hard [ex_big, ex_red] [ex_rule]")
       auto
  have e: "enum_models ?hard = [[1, 2], [1, - 2], [- 1, 2]]" by code_simp
  have i: "integers (ex_store 2) = [1, - 2]" "integers (ex_store 0) = [- 1, - 2]"
    by (simp_all add: ex_store_def new_object_def)
  from t st have m2: "\<exists>m\<in>set (enum_models ?hard).
      length (integers (ex_store 2)) = length m
      \<and> (\<forall>i<length m. integers (ex_store 2) ! i = m ! i)"
    by (metis list.set_intros(1,2))
  from t st have m0: "\<not> (\<exists>m\<in>set (enum_models ?hard).
      length (integers (ex_store 0)) = length m
      \<and> (\<forall>i<length m. integers (ex_store 0) ! i = m ! i))"
    by (metis list.set_intros(1) set_ConsD empty_iff empty_set zero_neq_numeral zero_neq_one)
  have n: "\<not> solve ?unsat" by code_simp
  have c: "distinct (''encoding'' # map pl_name [ex_big, ex_red] @ [''total penalty''])
      \<and> distinct (''encoding'' # map qcl_name [ex_rule])"
    by (simp add: ex_big_def ex_red_def ex_rule_def)
  from u n c obtain su where
    su: "PreferenceProblem_init ex_store [0, 1, 2, 3] ?unsat [ex_big, ex_red] [ex_rule] = Inr su"
    by blast
  with u n have "return_feasibility su = ''No feasible objects.''" by blast
  with su have r: "map_sum id return_feasibility
       (PreferenceProblem_init ex_store [0, 1, 2, 3] ?unsat [ex_big, ex_red] [ex_rule])
         = Inr ''No feasible objects.''" by simp
  have "\<not> (distinct (''encoding'' # map pl_name [ex_big, ex_big] @ [''total penalty''])
      \<and> distinct (''encoding'' # map qcl_name [ex_rule]))"
    by simp
  with w n have x: "PreferenceProblem_init ex_store [0, 1, 2, 3] ?unsat [ex_big, ex_big] [ex_rule]
      = Inl ValueError"
    by blast
  have "feasible_objects ?start = [] \<and> \<not> solve (hard_constraints ?start)"
    using n by simp
  with u have y: "return_feasibility (check_feasibility ?start) = ''No feasible objects.''"
    by blast
  from f e i n r m2 m0 x y show ?thesis by simp
qed

section \<open>Exemplification\<close>

lemma sample_two_few: "length xs < 2 \<Longrightarrow> sample_two rnd xs = Inl ValueError"
  by (simp add: sample_two_def)

lemma sample_two_positions:
  assumes "2 \<le> length xs"
  shows "\<exists>i j. i < length xs \<and> j < length xs \<and> i \<noteq> j
     \<and> sample_two rnd xs = Inr (xs ! i, xs ! j)"
proof -
  let ?n = "length xs"
  let ?first = "fst rnd mod ?n" and ?draw = "snd rnd mod (?n - 1)"
  let ?second = "if ?draw = ?first then ?n - 1 else ?draw"
  from assms have pos: "0 < ?n" "0 < ?n - 1" by linarith+
  have f: "?first < ?n" and d: "?draw < ?n - 1"
    using pos by (simp_all only: mod_less_divisor)
  from d have d': "?draw < ?n" by linarith
  have p: "(xs[?first := xs ! (?n - 1)]) ! ?draw = xs ! ?second"
    using f d' by (simp add: nth_list_update)
  have "sample_two rnd xs = Inr (xs ! ?first, xs ! ?second)"
    using assms p by (simp add: sample_two_def Let_def)
  moreover have "?second < ?n" using d' assms by auto
  moreover have "?first \<noteq> ?second" using f d by auto
  ultimately show ?thesis using f by blast
qed

text \<open>
  C10, as amended. With fewer than two feasible objects both exemplifications end in
  the \<^verbatim>\<open>ValueError\<close> that the sampling raises, before anything is printed. With two or
  more, the two objects compared stand at two different positions of the feasible
  list, and the first line printed names them.
\<close>

theorem exemplification_sampling:
  "(length (feasible_objects st) < 2 \<longrightarrow>
      penalty_exemplification rnd st = ([], Some ValueError)
      \<and> qualitative_exemplification rnd st = ([], Some ValueError))
   \<and> (2 \<le> length (feasible_objects st) \<longrightarrow>
      (\<exists>i j. i < length (feasible_objects st) \<and> j < length (feasible_objects st) \<and> i \<noteq> j
         \<and> sample_two rnd (feasible_objects st)
             = Inr (feasible_objects st ! i, feasible_objects st ! j)
         \<and> snd (penalty_exemplification rnd st) = None
         \<and> hd (fst (penalty_exemplification rnd st))
             = ''Two randomly selected feasible objects are ''
               @ get_name (heap st (feasible_objects st ! i)) @ '' and ''
               @ get_name (heap st (feasible_objects st ! j)) @ '',''
         \<and> hd (fst (qualitative_exemplification rnd st))
             = ''Two randomly selected feasible objects are ''
               @ get_name (heap st (feasible_objects st ! i)) @ '' and ''
               @ get_name (heap st (feasible_objects st ! j)) @ '',''))"
proof (intro conjI impI)
  assume "length (feasible_objects st) < 2"
  then have "sample_two rnd (feasible_objects st) = Inl ValueError" by (rule sample_two_few)
  then show "penalty_exemplification rnd st = ([], Some ValueError)"
    "qualitative_exemplification rnd st = ([], Some ValueError)"
    by (simp_all add: penalty_exemplification_def qualitative_exemplification_def)
next
  assume "2 \<le> length (feasible_objects st)"
  from sample_two_positions [OF this, of rnd] obtain i j where ij:
    "i < length (feasible_objects st)" "j < length (feasible_objects st)" "i \<noteq> j"
    "sample_two rnd (feasible_objects st) = Inr (feasible_objects st ! i, feasible_objects st ! j)"
    by blast
  have "snd (penalty_exemplification rnd st) = None"
    "hd (fst (penalty_exemplification rnd st))
             = ''Two randomly selected feasible objects are ''
               @ get_name (heap st (feasible_objects st ! i)) @ '' and ''
               @ get_name (heap st (feasible_objects st ! j)) @ '',''"
    "hd (fst (qualitative_exemplification rnd st))
             = ''Two randomly selected feasible objects are ''
               @ get_name (heap st (feasible_objects st ! i)) @ '' and ''
               @ get_name (heap st (feasible_objects st ! j)) @ '',''"
    by (simp_all add: penalty_exemplification_def qualitative_exemplification_def ij(4) Let_def
        split: prod.splits sum.splits)
  with ij show "\<exists>i j. i < length (feasible_objects st) \<and> j < length (feasible_objects st) \<and> i \<noteq> j
         \<and> sample_two rnd (feasible_objects st)
             = Inr (feasible_objects st ! i, feasible_objects st ! j)
         \<and> snd (penalty_exemplification rnd st) = None
         \<and> hd (fst (penalty_exemplification rnd st))
             = ''Two randomly selected feasible objects are ''
               @ get_name (heap st (feasible_objects st ! i)) @ '' and ''
               @ get_name (heap st (feasible_objects st ! j)) @ '',''
         \<and> hd (fst (qualitative_exemplification rnd st))
             = ''Two randomly selected feasible objects are ''
               @ get_name (heap st (feasible_objects st ! i)) @ '' and ''
               @ get_name (heap st (feasible_objects st ! j)) @ '',''"
    by blast
qed

text \<open>
  C10 as stated fails on the constructed problem with the single feasible object
  \<open>o3\<close>: no report is produced, the exception of the sampling call ends both
  exemplifications.
\<close>

theorem single_feasible_counterexample:
  "PreferenceProblem_init ex_store [0, 1, 2, 3] [[1], [2], [- 1, 1], [- 2, 2]] [] [] = Inr ex_single
   \<and> feasible_objects ex_single = [3]
   \<and> penalty_exemplification (0, 0) ex_single = ([], Some ValueError)
   \<and> qualitative_exemplification (0, 0) ex_single = ([], Some ValueError)"
proof -
  have e: "enum_models [[1], [2], [- 1, 1], [- 2, 2]] = [[1, 2]]" by code_simp
  have i: "integers (ex_store 0) = [- 1, - 2]" "integers (ex_store (Suc 0)) = [- 1, 2]"
    "integers (ex_store 2) = [1, - 2]" "integers (ex_store 3) = [1, 2]"
    by (simp_all add: ex_store_def new_object_def ex_o1_def ex_o3_def)
  have n: "get_name (ex_store 3) = ''o3''" "get_total_penalty (ex_store 3) = 0"
    by (simp_all add: ex_store_def new_object_def ex_o3_def get_name_def get_total_penalty_def)
  have "PreferenceProblem_init ex_store [0, 1, 2, 3] [[1], [2], [- 1, 1], [- 2, 2]] [] [] = Inr ex_single"
    by (simp add: PreferenceProblem_init_def check_feasibility_def e i n Let_def
        return_integer_values_def apply_penalty_logic_def make_penalty_table_columns_def
        apply_qualitative_choice_logic_def make_qualitative_table_columns_def PrettyTable_def
        ex_single_def)
  then show ?thesis
    by (simp add: ex_single_def penalty_exemplification_def qualitative_exemplification_def
        sample_two_def)
qed

theorem exemplification_sampling_witness:
  "penalty_exemplification (0, 0) ex_single = ([], Some ValueError)
   \<and> qualitative_exemplification (0, 0) ex_single = ([], Some ValueError)
   \<and> sample_two (0, 0) (feasible_objects ex_problem) = Inr (1, 3)
   \<and> penalty_exemplification (0, 0) ex_problem
       = ([''Two randomly selected feasible objects are o1 and o3,'',
           ''o1 and o3 are equivalent.''], None)"
proof -
  have 1: "length (feasible_objects ex_single) < 2" by (simp add: ex_single_def)
  have 2: "2 \<le> length (feasible_objects ex_problem)" by (simp add: ex_problem_def)
  from exemplification_sampling [of ex_problem "(0, 0)"] 2 have "snd (penalty_exemplification (0, 0) ex_problem) = None"
    by blast
  moreover have "fst (penalty_exemplification (0, 0) ex_problem)
       = [''Two randomly selected feasible objects are o1 and o3,'',
           ''o1 and o3 are equivalent.'']"
    by (simp add: penalty_exemplification_def sample_two_def ex_problem_def get_name_def
        get_total_penalty_def ex_o1_def ex_o3_def new_object_def)
  ultimately have p: "penalty_exemplification (0, 0) ex_problem
       = ([''Two randomly selected feasible objects are o1 and o3,'',
           ''o1 and o3 are equivalent.''], None)"
    by (simp add: prod_eq_iff)
  have s: "sample_two (0, 0) (feasible_objects ex_problem) = Inr (1, 3)"
    by (simp add: sample_two_def ex_problem_def)
  from exemplification_sampling [of ex_single "(0, 0)"] 1 p s show ?thesis by simp
qed



section \<open>Stored degree vectors\<close>

lemma qualitative_row_result:
  "qualitative_row rules ob (row, qv) =
     (row @ map (\<lambda>q. QualitativeChoiceLogic_test q ob) rules,
      qv @ map (\<lambda>q. stored_degree (QualitativeChoiceLogic_test q ob)) rules)"
  by (induction rules arbitrary: row qv) (simp_all add: Let_def)

lemma dict_set_entries: "set (dict_set d k v) \<subseteq> insert (k, v) (set d)"
  by (induction d) (auto split: if_splits)

lemma qualitative_rows_entries:
  "(k, v) \<in> set (snd (qualitative_rows rules h rs (rows, d))) \<Longrightarrow>
   (k, v) \<in> set d
   \<or> (\<exists>r\<in>set rs. k = get_name (h r)
         \<and> v = map (\<lambda>q. stored_degree (QualitativeChoiceLogic_test q (h r))) rules)"
proof (induction rs arbitrary: rows d)
  case Nil
  then show ?case by simp
next
  case (Cons r rs)
  let ?v = "map (\<lambda>q. stored_degree (QualitativeChoiceLogic_test q (h r))) rules"
  from Cons.prems have "(k, v) \<in> set (snd (qualitative_rows rules h rs
      (rows @ [(get_name (h r), map (\<lambda>q. QualitativeChoiceLogic_test q (h r)) rules)],
       dict_set d (get_name (h r)) ?v)))"
    by (simp add: qualitative_row_result)
  from Cons.IH [OF this] dict_set_entries [of d "get_name (h r)" ?v]
  show ?case by auto
qed

lemma test_finite_bound:
  assumes "QualitativeChoiceLogic_test q ob = enat n"
  shows "1 \<le> n \<and> n \<le> length (qcl_constraints q)"
proof -
  from assms test_cases [of q ob] have "min_true_tier q ob = enat n"
    by (auto split: option.splits if_splits)
  then show ?thesis by (simp add: min_true_tier_enat)
qed

lemma stored_degree_range:
  "stored_degree (QualitativeChoiceLogic_test q ob) = 10000
   \<or> (1 \<le> stored_degree (QualitativeChoiceLogic_test q ob)
       \<and> stored_degree (QualitativeChoiceLogic_test q ob) \<le> length (qcl_constraints q))"
proof (cases "QualitativeChoiceLogic_test q ob")
  case (enat n)
  with test_finite_bound [OF enat] show ?thesis by (simp add: stored_degree_def)
next
  case infinity
  then show ?thesis by (simp add: stored_degree_def)
qed

lemma stored_degree_less:
  assumes "length (qcl_constraints q) < 10000"
  shows "stored_degree (QualitativeChoiceLogic_test q a) < stored_degree (QualitativeChoiceLogic_test q b)
     \<longleftrightarrow> QualitativeChoiceLogic_test q a < QualitativeChoiceLogic_test q b"
proof -
  have fin: "n < 10000" if "QualitativeChoiceLogic_test q ob = enat n" for ob n
    using test_finite_bound [OF that] assms by simp
  show ?thesis
  proof (cases "QualitativeChoiceLogic_test q a")
    case ea: (enat n)
    show ?thesis
    proof (cases "QualitativeChoiceLogic_test q b")
      case (enat m)
      with ea show ?thesis by (simp add: stored_degree_def)
    next
      case infinity
      with ea fin [OF ea] show ?thesis by (simp add: stored_degree_def)
    qed
  next
    case ia: infinity
    show ?thesis
    proof (cases "QualitativeChoiceLogic_test q b")
      case (enat m)
      with ia fin [OF enat] show ?thesis by (simp add: stored_degree_def)
    next
      case infinity
      with ia show ?thesis by (simp add: stored_degree_def)
    qed
  qed
qed

lemma map2_same: "map2 f (map g xs) (map h xs) = map (\<lambda>x. f (g x) (h x)) xs"
  by (induction xs) auto

lemma compare_stored:
  assumes "\<forall>q\<in>set rules. length (qcl_constraints q) < 10000"
  shows "compare_degrees (map (\<lambda>q. stored_degree (QualitativeChoiceLogic_test q a)) rules)
           (map (\<lambda>q. stored_degree (QualitativeChoiceLogic_test q b)) rules) acc
       = compare_degrees (map (\<lambda>q. QualitativeChoiceLogic_test q a) rules)
           (map (\<lambda>q. QualitativeChoiceLogic_test q b) rules) acc"
proof -
  have "map (\<lambda>q. if stored_degree (QualitativeChoiceLogic_test q a)
                     < stored_degree (QualitativeChoiceLogic_test q b) then 1
                  else if stored_degree (QualitativeChoiceLogic_test q a)
                     > stored_degree (QualitativeChoiceLogic_test q b) then 2 else 0) rules
      = map (\<lambda>q. if QualitativeChoiceLogic_test q a < QualitativeChoiceLogic_test q b then 1
                  else if QualitativeChoiceLogic_test q a > QualitativeChoiceLogic_test q b then 2
                  else (0::nat)) rules"
    using assms by (intro map_cong) (simp_all add: stored_degree_less)
  then show ?thesis
    by (simp add: compare_degrees_same_length map2_same)
qed

lemma init_degrees:
  assumes "PreferenceProblem_init h objs hard pls qls = Inr st"
  shows "object_qualitative_values st
     = snd (qualitative_rows qls (heap st) (feasible_objects st) ([], []))"
  by (rule init_fields(7) [OF assms])

text \<open>
  C8. In a constructed problem every stored vector belongs to a feasible object and
  holds, rule by rule, the stored form of the degree: 10000, or a tier index between 1
  and the number of tiers of that rule. A finite degree of a rule with fewer than 10000
  tiers is stored as it is and lies strictly below the stored form of infinity; and
  when every rule has fewer than 10000 tiers, comparing two stored vectors gives the
  outcome that comparing the degrees themselves, with infinity, gives.
\<close>

theorem stored_degrees:
  "(\<forall>st. PreferenceProblem_init h objs hard pls qls = Inr st \<longrightarrow>
      (\<forall>(k, v)\<in>set (object_qualitative_values st).
         \<exists>r\<in>set (feasible_objects st).
           k = get_name (heap st r)
           \<and> v = map (\<lambda>q. stored_degree (QualitativeChoiceLogic_test q (heap st r))) qls
           \<and> length v = length qls
           \<and> (\<forall>j<length qls. v ! j = 10000
                 \<or> (1 \<le> v ! j \<and> v ! j \<le> length (qcl_constraints (qls ! j))))))
   \<and> (\<forall>q ob n. QualitativeChoiceLogic_test q ob = enat n
         \<and> length (qcl_constraints q) < 10000 \<longrightarrow>
         stored_degree (enat n) = n \<and> n < stored_degree \<infinity>)
   \<and> ((\<forall>q\<in>set qls. length (qcl_constraints q) < 10000) \<longrightarrow>
        (\<forall>a b. qualitative_outcome
                 (map (\<lambda>q. stored_degree (QualitativeChoiceLogic_test q a)) qls)
                 (map (\<lambda>q. stored_degree (QualitativeChoiceLogic_test q b)) qls)
               = qualitative_outcome
                 (map (\<lambda>q. QualitativeChoiceLogic_test q a) qls)
                 (map (\<lambda>q. QualitativeChoiceLogic_test q b) qls)))"
proof -
  have A: "\<forall>(k, v)\<in>set (object_qualitative_values st).
         \<exists>r\<in>set (feasible_objects st).
           k = get_name (heap st r)
           \<and> v = map (\<lambda>q. stored_degree (QualitativeChoiceLogic_test q (heap st r))) qls
           \<and> length v = length qls
           \<and> (\<forall>j<length qls. v ! j = 10000
                 \<or> (1 \<le> v ! j \<and> v ! j \<le> length (qcl_constraints (qls ! j))))"
    if st: "PreferenceProblem_init h objs hard pls qls = Inr st" for st
  proof (clarify)
    fix k v assume "(k, v) \<in> set (object_qualitative_values st)"
    then have "(k, v) \<in> set (snd (qualitative_rows qls (heap st) (feasible_objects st) ([], [])))"
      by (simp add: init_degrees [OF st])
    from qualitative_rows_entries [OF this] obtain r where r: "r \<in> set (feasible_objects st)"
      "k = get_name (heap st r)"
      "v = map (\<lambda>q. stored_degree (QualitativeChoiceLogic_test q (heap st r))) qls"
      by auto
    have "v ! j = 10000 \<or> (1 \<le> v ! j \<and> v ! j \<le> length (qcl_constraints (qls ! j)))"
      if "j < length qls" for j
      using that stored_degree_range [of "qls ! j" "heap st r"] by (simp add: r(3))
    with r show "\<exists>r\<in>set (feasible_objects st).
           k = get_name (heap st r)
           \<and> v = map (\<lambda>q. stored_degree (QualitativeChoiceLogic_test q (heap st r))) qls
           \<and> length v = length qls
           \<and> (\<forall>j<length qls. v ! j = 10000
                 \<or> (1 \<le> v ! j \<and> v ! j \<le> length (qcl_constraints (qls ! j))))"
      by auto
  qed
  have B: "stored_degree (enat n) = n \<and> n < stored_degree \<infinity>"
    if "QualitativeChoiceLogic_test q ob = enat n \<and> length (qcl_constraints q) < 10000"
    for q ob n
    using that test_finite_bound [of q ob n] by (simp add: stored_degree_def)
  have C: "qualitative_outcome
                 (map (\<lambda>q. stored_degree (QualitativeChoiceLogic_test q a)) qls)
                 (map (\<lambda>q. stored_degree (QualitativeChoiceLogic_test q b)) qls)
               = qualitative_outcome
                 (map (\<lambda>q. QualitativeChoiceLogic_test q a) qls)
                 (map (\<lambda>q. QualitativeChoiceLogic_test q b) qls)"
    if "\<forall>q\<in>set qls. length (qcl_constraints q) < 10000" for a b
    using compare_stored [OF that, of a b "[]"] by (simp add: qualitative_outcome_def)
  from A B C show ?thesis by blast
qed


theorem stored_degrees_witness:
  "map_sum id object_qualitative_values
     (PreferenceProblem_init ex_store [0, 1, 2, 3] [[1, 2], [- 1, 1], [- 2, 2]]
        [ex_big, ex_red] [ex_rule])
     = Inr [(''o1'', [10000]), (''o2'', [1]), (''o3'', [2])]
   \<and> QualitativeChoiceLogic_test ex_rule ex_o3 = enat 2
   \<and> QualitativeChoiceLogic_test ex_rule ex_o1 = \<infinity>
   \<and> 2 < stored_degree \<infinity>
   \<and> qualitative_outcome [stored_degree (QualitativeChoiceLogic_test ex_rule ex_o1)]
        [stored_degree (QualitativeChoiceLogic_test ex_rule ex_o3)] = Inr SecondPreferred"
proof -
  note t = stored_degrees [of ex_store "[0, 1, 2, 3]" "[[1, 2], [- 1, 1], [- 2, 2]]" "[ex_big, ex_red]"
      "[ex_rule]"]
  have d: "map_sum id object_qualitative_values
     (PreferenceProblem_init ex_store [0, 1, 2, 3] [[1, 2], [- 1, 1], [- 2, 2]]
        [ex_big, ex_red] [ex_rule])
     = Inr [(''o1'', [10000]), (''o2'', [1]), (''o3'', [2])]"
    by code_simp
  have q3: "QualitativeChoiceLogic_test ex_rule ex_o3 = enat 2" by code_simp
  have q1: "QualitativeChoiceLogic_test ex_rule ex_o1 = \<infinity>" by code_simp
  have l: "length (qcl_constraints ex_rule) < 10000" by (simp add: ex_rule_def)
  from t q3 l have s: "2 < stored_degree \<infinity>" by blast
  from t l have "qualitative_outcome
      (map (\<lambda>q. stored_degree (QualitativeChoiceLogic_test q ex_o1)) [ex_rule])
      (map (\<lambda>q. stored_degree (QualitativeChoiceLogic_test q ex_o3)) [ex_rule])
    = qualitative_outcome
      (map (\<lambda>q. QualitativeChoiceLogic_test q ex_o1) [ex_rule])
      (map (\<lambda>q. QualitativeChoiceLogic_test q ex_o3) [ex_rule])"
    by simp
  then have o: "qualitative_outcome [stored_degree (QualitativeChoiceLogic_test ex_rule ex_o1)]
        [stored_degree (QualitativeChoiceLogic_test ex_rule ex_o3)] = Inr SecondPreferred"
    by (simp add: q1 q3 qualitative_outcome_def outcome_of_def)
  from d q3 q1 s o show ?thesis by simp
qed

section \<open>Dominance in a constructed problem\<close>

lemma dict_set_fresh: "k \<notin> fst ` set d \<Longrightarrow> dict_set d k v = d @ [(k, v)]"
  by (induction d) auto

lemma qualitative_rows_distinct:
  "distinct (map (\<lambda>r. get_name (h r)) rs) \<Longrightarrow>
   \<forall>r\<in>set rs. get_name (h r) \<notin> fst ` set d \<Longrightarrow>
   qualitative_rows rules h rs (rows, d)
     = (rows @ map (\<lambda>r. (get_name (h r), map (\<lambda>q. QualitativeChoiceLogic_test q (h r)) rules)) rs,
        d @ map (\<lambda>r. (get_name (h r), degree_vector rules (h r))) rs)"
proof (induction rs arbitrary: rows d)
  case Nil
  then show ?case by simp
next
  case (Cons r rs)
  let ?k = "get_name (h r)"
  let ?v = "degree_vector rules (h r)"
  from Cons.prems have fresh: "?k \<notin> fst ` set d" and d: "distinct (map (\<lambda>r. get_name (h r)) rs)"
    and nk: "\<forall>x\<in>set rs. get_name (h x) \<noteq> ?k"
    and nd: "\<forall>x\<in>set rs. get_name (h x) \<notin> fst ` set d"
    by (auto simp: image_def)
  from nk nd have next_fresh: "\<forall>x\<in>set rs. get_name (h x) \<notin> fst ` set (d @ [(?k, ?v)])"
    by auto
  have "qualitative_rows rules h (r # rs) (rows, d)
      = qualitative_rows rules h rs
          (rows @ [(?k, map (\<lambda>q. QualitativeChoiceLogic_test q (h r)) rules)], d @ [(?k, ?v)])"
    by (simp add: qualitative_row_result dict_set_fresh [OF fresh] degree_vector_def)
  then show ?case
    unfolding Cons.IH [OF d next_fresh] by simp
qed

lemma test_depends_on_integers:
  "integers ob = integers ob' \<Longrightarrow>
   QualitativeChoiceLogic_test q ob = QualitativeChoiceLogic_test q ob'"
  by (simp add: QualitativeChoiceLogic_test_def return_test_integers_def)

lemma init_vectors:
  assumes st: "PreferenceProblem_init h objs hard pls qls = Inr st"
    and names: "distinct (map (\<lambda>r. get_name (h r)) objs)"
  shows "object_qualitative_values st
     = map (\<lambda>r. (get_name (h r), degree_vector qls (h r))) (feasible_objects st)"
    and "distinct (map (\<lambda>r. get_name (h r)) (feasible_objects st))"
    and "distinct (feasible_objects st)"
    and "get_name (heap st r) = get_name (h r)"
proof -
  show n: "get_name (heap st r) = get_name (h r)" for r
    using init_feasible(3) [OF st, of r] by (simp add: get_name_def)
  have v: "degree_vector qls (heap st r) = degree_vector qls (h r)" for r
    using test_depends_on_integers [OF init_feasible(2) [OF st, of r]]
    by (simp add: degree_vector_def)
  show dn: "distinct (map (\<lambda>r. get_name (h r)) (feasible_objects st))"
    unfolding init_feasible(1) [OF st] using names by (rule distinct_map_filter)
  then show "distinct (feasible_objects st)" by (simp add: distinct_map)
  from dn have "distinct (map (\<lambda>r. get_name (heap st r)) (feasible_objects st))"
    by (simp add: n)
  from qualitative_rows_distinct [OF this, of "[]" qls "[]"]
  show "object_qualitative_values st
     = map (\<lambda>r. (get_name (h r), degree_vector qls (h r))) (feasible_objects st)"
    unfolding init_degrees [OF st] by (simp add: n v)
qed

lemma map_of_named:
  "distinct (map f xs) \<Longrightarrow> x \<in> set xs \<Longrightarrow> map_of (map (\<lambda>x. (f x, g x)) xs) (f x) = Some (g x)"
  by (induction xs) (auto simp: image_iff)

lemma sample_two_members:
  assumes "sample_two rnd xs = Inr (x, y)" and "distinct xs"
  shows "x \<in> set xs \<and> y \<in> set xs \<and> x \<noteq> y"
proof -
  from assms(1) have "2 \<le> length xs"
    by (auto simp: sample_two_def Let_def split: if_splits)
  from sample_two_positions [OF this, of rnd] assms(1) obtain i j where
    "i < length xs" "j < length xs" "i \<noteq> j" "x = xs ! i" "y = xs ! j"
    by auto
  with assms(2) show ?thesis by (auto simp: nth_eq_iff_index_eq)
qed

lemma verdict_of_outcome:
  fixes a b :: "('a::linorder) list"
  assumes "length a = length b" and "qualitative_outcome a b = Inr oc"
  shows "outcome_line n1 n2 oc =
     (if strictly_preferred a b then ''and '' @ n1 @ '' is strictly preferred over '' @ n2 @ ''.''
      else if strictly_preferred b a then ''and '' @ n2 @ '' is strictly preferred over '' @ n1 @ ''.''
      else if a = b then ''and '' @ n1 @ '' and '' @ n2 @ '' are equal.''
      else ''and '' @ n1 @ '' and '' @ n2 @ '' are incomparable.'')"
proof -
  from outcome_cases [OF assms(1)] assms(2)
  have c: "oc = FirstPreferred \<longleftrightarrow> strictly_preferred a b"
    "oc = SecondPreferred \<longleftrightarrow> strictly_preferred b a"
    "oc = Equal \<longleftrightarrow> a = b"
    by auto
  show ?thesis
    using c by (cases oc) auto
qed

lemma incomparable_iff:
  fixes a b :: "('a::linorder) list"
  assumes "length a = length b"
  shows "\<not> strictly_preferred a b \<and> \<not> strictly_preferred b a \<and> a \<noteq> b
     \<longleftrightarrow> (\<exists>i<length a. a ! i < b ! i) \<and> (\<exists>i<length a. a ! i > b ! i)"
  unfolding nowhere_different [OF assms] strictly_preferred_def using assms by auto

lemma optimal_keys_result:
  assumes "\<forall>(k, v)\<in>set d. is_optimal_qualitative_object st v = Inr (P v)"
  shows "optimal_keys st d acc = Inr (acc @ map fst (filter (\<lambda>(k, v). P v) d))"
  using assms
proof (induction d arbitrary: acc)
  case Nil
  then show ?case by simp
next
  case (Cons kv d)
  obtain k v where kv: "kv = (k, v)" by (cases kv)
  from Cons.prems kv have o: "is_optimal_qualitative_object st v = Inr (P v)"
    and rest: "\<forall>(k, v)\<in>set d. is_optimal_qualitative_object st v = Inr (P v)"
    by auto
  show ?case
    by (simp add: kv o Cons.IH [OF rest])
qed

lemma init_exemplification:
  assumes st: "PreferenceProblem_init h objs hard pls qls = Inr st"
    and names: "distinct (map (\<lambda>r. get_name (h r)) objs)"
    and s: "sample_two rnd (feasible_objects st) = Inr (r1, r2)"
  shows "qualitative_exemplification rnd st =
     ([''Two randomly selected feasible objects are '' @ get_name (h r1) @ '' and ''
         @ get_name (h r2) @ '','',
       (if strictly_preferred (degree_vector qls (h r1)) (degree_vector qls (h r2)) then
          ''and '' @ get_name (h r1) @ '' is strictly preferred over '' @ get_name (h r2) @ ''.''
        else if strictly_preferred (degree_vector qls (h r2)) (degree_vector qls (h r1)) then
          ''and '' @ get_name (h r2) @ '' is strictly preferred over '' @ get_name (h r1) @ ''.''
        else if degree_vector qls (h r1) = degree_vector qls (h r2) then
          ''and '' @ get_name (h r1) @ '' and '' @ get_name (h r2) @ '' are equal.''
        else ''and '' @ get_name (h r1) @ '' and '' @ get_name (h r2) @ '' are incomparable.'')],
      None)"
proof -
  note v = init_vectors [OF st names]
  let ?a = "degree_vector qls (h r1)" and ?b = "degree_vector qls (h r2)"
  from sample_two_members [OF s v(3)] have m: "r1 \<in> set (feasible_objects st)"
    "r2 \<in> set (feasible_objects st)" "r1 \<noteq> r2" by simp_all
  have len: "length ?a = length ?b" by (simp add: degree_vector_def)
  from outcome_cases [OF len] obtain oc where oc: "qualitative_outcome ?a ?b = Inr oc" by blast
  have ne: "get_name (heap st r1) \<noteq> get_name (heap st r2)"
    using v(2) m by (auto simp: v(4) distinct_map inj_on_def)
  have dk: "distinct (map fst (object_qualitative_values st))"
    unfolding v(1) using v(2) by (simp add: comp_def)
  have m1: "map_of (object_qualitative_values st) (get_name (heap st r1)) = Some ?a"
    unfolding v(1) v(4) by (rule map_of_named [OF v(2) m(1)])
  have m2: "map_of (object_qualitative_values st) (get_name (heap st r2)) = Some ?b"
    unfolding v(1) v(4) by (rule map_of_named [OF v(2) m(2)])
  from exemplification_line [OF s dk ne m1 m2 oc]
  show ?thesis
    unfolding v(4) verdict_of_outcome [OF len oc] .
qed

lemma init_optimal:
  assumes st: "PreferenceProblem_init h objs hard pls qls = Inr st"
    and names: "distinct (map (\<lambda>r. get_name (h r)) objs)"
  shows "is_optimal_qualitative_object st (degree_vector qls ob)
     = Inr (\<not> (\<exists>r\<in>set (feasible_objects st).
                  strictly_preferred (degree_vector qls (h r)) (degree_vector qls ob)))"
proof -
  note v = init_vectors [OF st names]
  have "\<forall>(k, w)\<in>set (object_qualitative_values st). length w = length (degree_vector qls ob)"
    unfolding v(1) by (auto simp: degree_vector_def)
  from is_optimal_loop_result [OF this]
  show ?thesis
    unfolding is_optimal_qualitative_object_def v(1) by (auto simp: image_iff)
qed

lemma init_omni_optimization:
  assumes st: "PreferenceProblem_init h objs hard pls qls = Inr st"
    and names: "distinct (map (\<lambda>r. get_name (h r)) objs)"
  shows "qualitative_omni_optimization st =
     ([''All optimal objects: '' @ join_str '', ''
         (map (\<lambda>r. get_name (h r))
            (filter (\<lambda>r. \<not> (\<exists>r'\<in>set (feasible_objects st).
                              strictly_preferred (degree_vector qls (h r'))
                                (degree_vector qls (h r))))
               (feasible_objects st)))], None)"
proof -
  note v = init_vectors [OF st names]
  let ?P = "\<lambda>w. \<not> (\<exists>r'\<in>set (feasible_objects st).
                      strictly_preferred (degree_vector qls (h r')) w)"
  have len: "\<forall>(k, w)\<in>set (object_qualitative_values st).
       \<forall>(k', w')\<in>set (object_qualitative_values st). length w' = length w"
    unfolding v(1) by (auto simp: degree_vector_def)
  have "is_optimal_qualitative_object st w = Inr (?P w)"
    if "(k, w) \<in> set (object_qualitative_values st)" for k w
  proof -
    from that obtain r where "w = degree_vector qls (h r)"
      unfolding v(1) by auto
    then show ?thesis using init_optimal [OF st names, of "h r"] by simp
  qed
  then have "\<forall>(k, w)\<in>set (object_qualitative_values st).
      is_optimal_qualitative_object st w = Inr (?P w)"
    by auto
  from optimal_keys_result [OF this, of "[]"]
  have "optimal_keys st (object_qualitative_values st) []
      = Inr (map fst (filter (\<lambda>(k, w). ?P w) (object_qualitative_values st)))"
    by simp
  also have "map fst (filter (\<lambda>(k, w). ?P w) (object_qualitative_values st))
      = map (\<lambda>r. get_name (h r)) (filter (\<lambda>r. ?P (degree_vector qls (h r))) (feasible_objects st))"
    unfolding v(1) by (simp add: filter_map comp_def)
  finally show ?thesis
    by (simp add: qualitative_omni_optimization_def)
qed

text \<open>
  C6. For degree vectors of equal length the comparison ends in exactly one of four
  outcomes: the first is strictly preferred iff it is lower at some index and higher
  at none, the second likewise, they are incomparable iff each is lower somewhere
  (as \<open>[1, 3]\<close> and \<open>[3, 1]\<close> are), and equal iff no index differs. In a problem
  constructed from objects with distinct names, the dictionary of stored vectors holds
  exactly the feasible objects, each under its name with its own degree vector, all of
  the length of the rule list; for the two objects sampled,
  \<^verbatim>\<open>qualitative_exemplification\<close> prints the line naming them and then
  \<^verbatim>\<open>and A is strictly preferred over B.\<close> when the vector of the first dominates,
  \<^verbatim>\<open>and B is strictly preferred over A.\<close> when the vector of the second dominates,
  \<^verbatim>\<open>and A and B are equal.\<close> when the vectors coincide and
  \<^verbatim>\<open>and A and B are incomparable.\<close> in the remaining case; the optimality test of the
  vector of an object answers that no feasible object's vector is strictly preferred
  to it; and \<^verbatim>\<open>qualitative_omni_optimization\<close> prints the names of exactly the feasible
  objects that no feasible object dominates, in the order of the feasible list.
\<close>

theorem qualitative_dominance:
  fixes a b :: "nat list"
  shows "(length a = length b \<longrightarrow>
      (\<exists>oc. qualitative_outcome a b = Inr oc
       \<and> (oc = FirstPreferred \<longleftrightarrow> strictly_preferred a b)
       \<and> (oc = SecondPreferred \<longleftrightarrow> strictly_preferred b a)
       \<and> (oc = Incomparable \<longleftrightarrow> (\<exists>i<length a. a ! i < b ! i) \<and> (\<exists>i<length a. a ! i > b ! i))
       \<and> (oc = Equal \<longleftrightarrow> a = b))
      \<and> (\<not> strictly_preferred a b \<and> \<not> strictly_preferred b a \<and> a \<noteq> b
           \<longleftrightarrow> (\<exists>i<length a. a ! i < b ! i) \<and> (\<exists>i<length a. a ! i > b ! i)))
   \<and> qualitative_outcome [1, 3] [3, 1 :: nat] = Inr Incomparable
   \<and> length (degree_vector qls ob) = length qls
   \<and> (\<forall>st. PreferenceProblem_init h objs hard pls qls = Inr st
          \<and> distinct (map (\<lambda>r. get_name (h r)) objs) \<longrightarrow>
        object_qualitative_values st
          = map (\<lambda>r. (get_name (h r), degree_vector qls (h r))) (feasible_objects st)
        \<and> (\<forall>rnd r1 r2. sample_two rnd (feasible_objects st) = Inr (r1, r2) \<longrightarrow>
             qualitative_exemplification rnd st =
               ([''Two randomly selected feasible objects are '' @ get_name (h r1) @ '' and ''
                   @ get_name (h r2) @ '','',
                 (if strictly_preferred (degree_vector qls (h r1)) (degree_vector qls (h r2)) then
                    ''and '' @ get_name (h r1) @ '' is strictly preferred over ''
                      @ get_name (h r2) @ ''.''
                  else if strictly_preferred (degree_vector qls (h r2)) (degree_vector qls (h r1)) then
                    ''and '' @ get_name (h r2) @ '' is strictly preferred over ''
                      @ get_name (h r1) @ ''.''
                  else if degree_vector qls (h r1) = degree_vector qls (h r2) then
                    ''and '' @ get_name (h r1) @ '' and '' @ get_name (h r2) @ '' are equal.''
                  else ''and '' @ get_name (h r1) @ '' and '' @ get_name (h r2)
                      @ '' are incomparable.'')],
                None))
        \<and> (\<forall>r. is_optimal_qualitative_object st (degree_vector qls (h r))
               = Inr (\<not> (\<exists>r'\<in>set (feasible_objects st).
                           strictly_preferred (degree_vector qls (h r'))
                             (degree_vector qls (h r)))))
        \<and> qualitative_omni_optimization st =
            ([''All optimal objects: '' @ join_str '', ''
                (map (\<lambda>r. get_name (h r))
                   (filter (\<lambda>r. \<not> (\<exists>r'\<in>set (feasible_objects st).
                                     strictly_preferred (degree_vector qls (h r'))
                                       (degree_vector qls (h r))))
                      (feasible_objects st)))], None))"
proof -
  have A: "(\<exists>oc. qualitative_outcome a b = Inr oc
       \<and> (oc = FirstPreferred \<longleftrightarrow> strictly_preferred a b)
       \<and> (oc = SecondPreferred \<longleftrightarrow> strictly_preferred b a)
       \<and> (oc = Incomparable \<longleftrightarrow> (\<exists>i<length a. a ! i < b ! i) \<and> (\<exists>i<length a. a ! i > b ! i))
       \<and> (oc = Equal \<longleftrightarrow> a = b))
      \<and> (\<not> strictly_preferred a b \<and> \<not> strictly_preferred b a \<and> a \<noteq> b
           \<longleftrightarrow> (\<exists>i<length a. a ! i < b ! i) \<and> (\<exists>i<length a. a ! i > b ! i))"
    if "length a = length b"
    using outcome_cases [OF that] incomparable_iff [OF that] by blast
  have B: "qualitative_outcome [1, 3] [3, 1 :: nat] = Inr Incomparable"
    by (simp add: qualitative_outcome_def outcome_of_def)
  have C: "length (degree_vector qls ob) = length qls"
    by (simp add: degree_vector_def)
  have D: "object_qualitative_values st
          = map (\<lambda>r. (get_name (h r), degree_vector qls (h r))) (feasible_objects st)
        \<and> (\<forall>rnd r1 r2. sample_two rnd (feasible_objects st) = Inr (r1, r2) \<longrightarrow>
             qualitative_exemplification rnd st =
               ([''Two randomly selected feasible objects are '' @ get_name (h r1) @ '' and ''
                   @ get_name (h r2) @ '','',
                 (if strictly_preferred (degree_vector qls (h r1)) (degree_vector qls (h r2)) then
                    ''and '' @ get_name (h r1) @ '' is strictly preferred over ''
                      @ get_name (h r2) @ ''.''
                  else if strictly_preferred (degree_vector qls (h r2)) (degree_vector qls (h r1)) then
                    ''and '' @ get_name (h r2) @ '' is strictly preferred over ''
                      @ get_name (h r1) @ ''.''
                  else if degree_vector qls (h r1) = degree_vector qls (h r2) then
                    ''and '' @ get_name (h r1) @ '' and '' @ get_name (h r2) @ '' are equal.''
                  else ''and '' @ get_name (h r1) @ '' and '' @ get_name (h r2)
                      @ '' are incomparable.'')],
                None))
        \<and> (\<forall>r. is_optimal_qualitative_object st (degree_vector qls (h r))
               = Inr (\<not> (\<exists>r'\<in>set (feasible_objects st).
                           strictly_preferred (degree_vector qls (h r'))
                             (degree_vector qls (h r)))))
        \<and> qualitative_omni_optimization st =
            ([''All optimal objects: '' @ join_str '', ''
                (map (\<lambda>r. get_name (h r))
                   (filter (\<lambda>r. \<not> (\<exists>r'\<in>set (feasible_objects st).
                                     strictly_preferred (degree_vector qls (h r'))
                                       (degree_vector qls (h r))))
                      (feasible_objects st)))], None)"
    if "PreferenceProblem_init h objs hard pls qls = Inr st
          \<and> distinct (map (\<lambda>r. get_name (h r)) objs)" for st
  proof -
    from that have st: "PreferenceProblem_init h objs hard pls qls = Inr st"
      and names: "distinct (map (\<lambda>r. get_name (h r)) objs)" by simp_all
    show ?thesis
      using init_vectors(1) [OF st names] init_exemplification [OF st names]
        init_optimal [OF st names] init_omni_optimization [OF st names]
      by simp
  qed
  from A B C D show ?thesis by blast
qed

theorem qualitative_dominance_witness:
  "map_sum id (\<lambda>st. (object_qualitative_values st,
        qualitative_exemplification (0, 1) st, qualitative_exemplification (1, 0) st,
        qualitative_exemplification (0, 2) st, qualitative_exemplification (2, 2) st,
        is_optimal_qualitative_object st [2, 2], is_optimal_qualitative_object st [2, 1],
        qualitative_omni_optimization st))
     (PreferenceProblem_init ex_store [0, 1, 2, 3] [[- 1, 1], [- 2, 2]] [ex_big, ex_red]
        [ex_size_rule, ex_color_rule])
   = Inr ([(''o0'', [2, 2]), (''o1'', [2, 1]), (''o2'', [1, 10000]), (''o3'', [1, 10000])],
          ([''Two randomly selected feasible objects are o0 and o1,'',
            ''and o1 is strictly preferred over o0.''], None),
          ([''Two randomly selected feasible objects are o1 and o0,'',
            ''and o1 is strictly preferred over o0.''], None),
          ([''Two randomly selected feasible objects are o0 and o2,'',
            ''and o0 and o2 are incomparable.''], None),
          ([''Two randomly selected feasible objects are o2 and o3,'',
            ''and o2 and o3 are equal.''], None),
          Inr False, Inr True,
          ([''All optimal objects: o1, o2, o3''], None))
   \<and> qualitative_outcome [2, 2] [1, 10000 :: nat] = Inr Incomparable
   \<and> qualitative_outcome [2, 1] [2, 2 :: nat] = Inr FirstPreferred"
proof -
  let ?hard = "[[- 1, 1], [- 2, 2 :: int]]"
  let ?qls = "[ex_size_rule, ex_color_rule]"
  let ?init = "PreferenceProblem_init ex_store [0, 1, 2, 3] ?hard [ex_big, ex_red] ?qls"
  note t = qualitative_dominance [where h = ex_store and objs = "[0, 1, 2, 3]" and hard = ?hard
      and pls = "[ex_big, ex_red]" and qls = ?qls and a = "[2, 2]" and b = "[1, 10000]"]
  note u = qualitative_dominance [where a = "[2, 1]" and b = "[2, 2]"]
  have "map_sum id feasible_objects ?init = Inr [0, 1, 2, 3]"
    by code_simp
  then obtain st where st: "?init = Inr st" and f: "feasible_objects st = [0, 1, 2, 3]"
    by (cases ?init) auto
  have n: "get_name (ex_store 0) = ''o0''" "get_name (ex_store (Suc 0)) = ''o1''"
    "get_name (ex_store 2) = ''o2''" "get_name (ex_store 3) = ''o3''"
    by (simp_all add: ex_store_def get_name_def new_object_def ex_o1_def ex_o3_def)
  then have names: "distinct (map (\<lambda>r. get_name (ex_store r)) [0, 1, 2, 3])"
    by simp
  have dv: "degree_vector ?qls (ex_store 0) = [2, 2]"
    "degree_vector ?qls (ex_store (Suc 0)) = [2, 1]"
    "degree_vector ?qls (ex_store 2) = [1, 10000]"
    "degree_vector ?qls (ex_store 3) = [1, 10000]"
    by code_simp+
  have sp: "\<not> strictly_preferred [2, 2] [2, 2 :: nat]"
    "\<not> strictly_preferred [2, 2] [2, Suc 0]"
    "\<not> strictly_preferred [2, 2] [Suc 0, 10000]" "strictly_preferred [2, Suc 0] [2, 2]"
    "\<not> strictly_preferred [2, Suc 0] [2, Suc 0]"
    "\<not> strictly_preferred [2, Suc 0] [Suc 0, 10000]"
    "\<not> strictly_preferred [Suc 0, 10000] [2, 2]"
    "\<not> strictly_preferred [Suc 0, 10000] [2, Suc 0]"
    "\<not> strictly_preferred [Suc 0, 10000] [Suc 0, 10000]"
    by (simp_all add: strictly_preferred_def Ex_less_Suc)
  have s: "sample_two (0, 1) [0, 1, 2, 3 :: nat] = Inr (0, 1)"
    "sample_two (1, 0) [0, 1, 2, 3 :: nat] = Inr (1, 0)"
    "sample_two (0, 2) [0, 1, 2, 3 :: nat] = Inr (0, 2)"
    "sample_two (2, 2) [0, 1, 2, 3 :: nat] = Inr (2, 3)"
    by (simp_all add: sample_two_def)
  note c = t [THEN conjunct2, THEN conjunct2, THEN conjunct2, rule_format, OF conjI, OF st names]
  note d = c [THEN conjunct1]
  note e = c [THEN conjunct2, THEN conjunct1, rule_format, unfolded f]
  note o = c [THEN conjunct2, THEN conjunct2, THEN conjunct1, rule_format, unfolded f]
  note q = c [THEN conjunct2, THEN conjunct2, THEN conjunct2, unfolded f]
  have 1: "object_qualitative_values st
      = [(''o0'', [2, 2]), (''o1'', [2, 1]), (''o2'', [1, 10000]), (''o3'', [1, 10000])]"
    unfolding d f by (simp add: n dv)
  have 2: "qualitative_exemplification (0, 1) st
      = ([''Two randomly selected feasible objects are o0 and o1,'',
          ''and o1 is strictly preferred over o0.''], None)"
    unfolding e [OF s(1)] by (simp add: n dv sp)
  have 3: "qualitative_exemplification (1, 0) st
      = ([''Two randomly selected feasible objects are o1 and o0,'',
          ''and o1 is strictly preferred over o0.''], None)"
    unfolding e [OF s(2)] by (simp add: n dv sp)
  have 4: "qualitative_exemplification (0, 2) st
      = ([''Two randomly selected feasible objects are o0 and o2,'',
          ''and o0 and o2 are incomparable.''], None)"
    unfolding e [OF s(3)] by (simp add: n dv sp)
  have 5: "qualitative_exemplification (2, 2) st
      = ([''Two randomly selected feasible objects are o2 and o3,'',
          ''and o2 and o3 are equal.''], None)"
    unfolding e [OF s(4)] by (simp add: n dv sp)
  have 6: "is_optimal_qualitative_object st [2, 2] = Inr False"
    using o [of 0] by (simp add: dv sp)
  have 7: "is_optimal_qualitative_object st [2, 1] = Inr True"
    using o [of 1] by (simp add: dv sp)
  have 8: "qualitative_omni_optimization st = ([''All optimal objects: o1, o2, o3''], None)"
    unfolding q by (simp add: n dv sp)
  have both: "(\<exists>i<length [2, 2 :: nat]. [2, 2] ! i < [1, 10000 :: nat] ! i)
      \<and> (\<exists>i<length [2, 2 :: nat]. [2, 2] ! i > [1, 10000 :: nat] ! i)"
    by (simp add: Ex_less_Suc)
  from t both have 9: "qualitative_outcome [2, 2] [1, 10000 :: nat] = Inr Incomparable"
    by force
  have "strictly_preferred [2, 1] [2, 2 :: nat]"
    using sp(4) by simp
  with u have 10: "qualitative_outcome [2, 1] [2, 2 :: nat] = Inr FirstPreferred"
    by force
  from 1 2 3 4 5 6 7 8 9 10 show ?thesis
    unfolding st by simp
qed


section \<open>What the solver model decides\<close>

text \<open>
  The exhaustive search answers as a solver does: \<open>solve\<close> holds iff some truth assignment
  makes a literal of every clause true. On the clauses of a rule followed by the unit
  clauses of an object whose integers are a sign vector covering the rule's variables,
  it holds iff every clause of the rule contains one of the object's integers.
\<close>

lemma fold_max_bounds:
  fixes a :: nat
  shows "a \<le> fold (\<lambda>l n. max n (f l)) xs a \<and> (\<forall>l\<in>set xs. f l \<le> fold (\<lambda>l n. max n (f l)) xs a)"
proof (induction xs arbitrary: a)
  case Nil
  then show ?case by simp
next
  case (Cons x xs)
  from Cons [of "max a (f x)"] show ?case by auto
qed

lemma nof_vars_bound: "c \<in> set cs \<Longrightarrow> l \<in> set c \<Longrightarrow> nat \<bar>l\<bar> \<le> nof_vars cs"
  using fold_max_bounds [of 0 "\<lambda>l. nat \<bar>l\<bar>" "concat cs"]
  by (auto simp: nof_vars_def)

lemma sign_vector_member:
  assumes "m \<in> set (all_vectors n)" and "l \<in> set m"
  shows "l \<noteq> 0 \<and> nat \<bar>l\<bar> \<le> n \<and> m ! (nat \<bar>l\<bar> - 1) = l"
proof -
  from assms(1) have len: "length m = n"
    and v: "\<forall>i<length m. m ! i = int (Suc i) \<or> m ! i = - int (Suc i)"
    by (simp_all add: all_vectors_iff)
  from assms(2) obtain i where i: "i < length m" "m ! i = l" by (auto simp: in_set_conv_nth)
  with v have "l = int (Suc i) \<or> l = - int (Suc i)" by auto
  then have "nat \<bar>l\<bar> = Suc i" by auto
  with i len show ?thesis by auto
qed



lemma solve_iff_model:
  "solve cs \<longleftrightarrow> (\<exists>m\<in>set (all_vectors (nof_vars cs)). \<forall>c\<in>set cs. \<exists>l\<in>set c. l \<in> set m)"
proof -
  have "enum_models cs \<noteq> [] \<longleftrightarrow> (\<exists>m. m \<in> set (enum_models cs))"
    by (cases "enum_models cs") auto
  then show ?thesis
    unfolding solve_def
    by (simp add: enum_models_def is_model_def list_all_iff list_ex_iff Bex_def)
qed


lemma model_gives_assignment:
  assumes m: "m \<in> set (all_vectors n)" and mod: "\<forall>c\<in>set cs. \<exists>l\<in>set c. l \<in> set m"
  shows "\<forall>c\<in>set cs. \<exists>l\<in>set c.
           (0 < l \<and> int (nat l) \<in> set m) \<or> (l < 0 \<and> int (nat (- l)) \<notin> set m)"
proof
  fix c assume "c \<in> set cs"
  with mod obtain l where l: "l \<in> set c" "l \<in> set m" by blast
  note s = sign_vector_member [OF m l(2)]
  show "\<exists>l\<in>set c. (0 < l \<and> int (nat l) \<in> set m) \<or> (l < 0 \<and> int (nat (- l)) \<notin> set m)"
  proof (cases "0 < l")
    case True
    then have "int (nat l) = l" by simp
    with True l(2) have "0 < l \<and> int (nat l) \<in> set m" by simp
    with l(1) show ?thesis by blast
  next
    case False
    with s have neg: "l < 0" by linarith
    then have e: "int (nat (- l)) = - l" by simp
    have "- l \<notin> set m"
    proof
      assume "- l \<in> set m"
      from sign_vector_member [OF m this] have "m ! (nat \<bar>- l\<bar> - 1) = - l" by blast
      moreover have "nat \<bar>- l\<bar> = nat \<bar>l\<bar>" by simp
      ultimately have "m ! (nat \<bar>l\<bar> - 1) = - l" by simp
      with s have "l = - l" by simp
      with neg show False by linarith
    qed
    with neg e have "l < 0 \<and> int (nat (- l)) \<notin> set m" by simp
    with l(1) show ?thesis by blast
  qed
qed


lemma vector_of_sign: "vector_of \<sigma> n \<in> set (all_vectors n)"
  unfolding all_vectors_iff vector_of_def by simp

lemma vector_of_member:
  assumes "(0 < l \<and> \<sigma> (nat l)) \<or> (l < 0 \<and> \<not> \<sigma> (nat (- l)))" and "nat \<bar>l\<bar> \<le> n"
  shows "l \<in> set (vector_of \<sigma> n)"
proof -
  from assms(1) have nz: "0 < nat \<bar>l\<bar>" by linarith
  define i where "i = nat \<bar>l\<bar> - 1"
  from nz assms(2) have i: "i < n" "Suc i = nat \<bar>l\<bar>" by (simp_all add: i_def)
  have "vector_of \<sigma> n ! i = (if \<sigma> (Suc i) then int (Suc i) else - int (Suc i))"
    using i(1) by (simp add: vector_of_def)
  also have "\<dots> = l"
  proof (cases "0 < l")
    case True
    with assms(1) have "\<sigma> (nat l)" by linarith
    moreover from True i(2) have "Suc i = nat l" by simp
    moreover from True have "int (nat l) = l" by simp
    ultimately show ?thesis by simp
  next
    case False
    with assms(1) have n: "l < 0" "\<not> \<sigma> (nat (- l))" by linarith+
    from n(1) i(2) have "Suc i = nat (- l)" by simp
    moreover from n(1) have "int (nat (- l)) = - l" by simp
    ultimately show ?thesis using n(2) by simp
  qed
  finally have "vector_of \<sigma> n ! i = l" .
  moreover have "i < length (vector_of \<sigma> n)" using i(1) by (simp add: vector_of_def)
  ultimately show ?thesis by (metis nth_mem)
qed


lemma solve_iff_satisfiable:
  "solve cs \<longleftrightarrow>
     (\<exists>\<sigma>. \<forall>c\<in>set cs. \<exists>l\<in>set c. (0 < l \<and> \<sigma> (nat l)) \<or> (l < 0 \<and> \<not> \<sigma> (nat (- l))))"
proof
  assume "solve cs"
  then obtain m where m: "m \<in> set (all_vectors (nof_vars cs))"
    and mod: "\<forall>c\<in>set cs. \<exists>l\<in>set c. l \<in> set m"
    unfolding solve_iff_model by blast
  from model_gives_assignment [OF m mod]
  show "\<exists>\<sigma>. \<forall>c\<in>set cs. \<exists>l\<in>set c. (0 < l \<and> \<sigma> (nat l)) \<or> (l < 0 \<and> \<not> \<sigma> (nat (- l)))"
    by (rule exI [of _ "\<lambda>v. int v \<in> set m"])
next
  assume "\<exists>\<sigma>. \<forall>c\<in>set cs. \<exists>l\<in>set c. (0 < l \<and> \<sigma> (nat l)) \<or> (l < 0 \<and> \<not> \<sigma> (nat (- l)))"
  then obtain \<sigma> where s:
    "\<forall>c\<in>set cs. \<exists>l\<in>set c. (0 < l \<and> \<sigma> (nat l)) \<or> (l < 0 \<and> \<not> \<sigma> (nat (- l)))" by blast
  have "\<forall>c\<in>set cs. \<exists>l\<in>set c. l \<in> set (vector_of \<sigma> (nof_vars cs))"
  proof
    fix c assume c: "c \<in> set cs"
    with s obtain l where l: "l \<in> set c"
      "(0 < l \<and> \<sigma> (nat l)) \<or> (l < 0 \<and> \<not> \<sigma> (nat (- l)))" by blast
    from vector_of_member [OF l(2) nof_vars_bound [OF c l(1)]] l(1)
    show "\<exists>l\<in>set c. l \<in> set (vector_of \<sigma> (nof_vars cs))" by blast
  qed
  with vector_of_sign [of \<sigma> "nof_vars cs"] show "solve cs"
    unfolding solve_iff_model by blast
qed


lemma solve_pinned:
  assumes v: "integers ob \<in> set (all_vectors n)" and n: "nof_vars cs \<le> n"
  shows "solve (cs @ return_test_integers ob) \<longleftrightarrow>
         (\<forall>c\<in>set cs. \<exists>l\<in>set c. l \<in> set (integers ob))"
proof
  assume "\<forall>c\<in>set cs. \<exists>l\<in>set c. l \<in> set (integers ob)"
  then have "\<forall>c\<in>set (cs @ return_test_integers ob). \<exists>l\<in>set c. l \<in> set (integers ob)"
    by (auto simp: return_test_integers_def)
  from model_gives_assignment [OF v this]
  have "\<exists>\<sigma>. \<forall>c\<in>set (cs @ return_test_integers ob). \<exists>l\<in>set c.
          (0 < l \<and> \<sigma> (nat l)) \<or> (l < 0 \<and> \<not> \<sigma> (nat (- l)))"
    by (rule exI [of _ "\<lambda>v. int v \<in> set (integers ob)"])
  then show "solve (cs @ return_test_integers ob)"
    by (simp only: solve_iff_satisfiable)
next
  assume "solve (cs @ return_test_integers ob)"
  then obtain \<sigma> where s: "\<forall>c\<in>set (cs @ return_test_integers ob). \<exists>l\<in>set c.
          (0 < l \<and> \<sigma> (nat l)) \<or> (l < 0 \<and> \<not> \<sigma> (nat (- l)))"
    unfolding solve_iff_satisfiable by blast
  have pin: "(0 < p \<and> \<sigma> (nat p)) \<or> (p < 0 \<and> \<not> \<sigma> (nat (- p)))" if "p \<in> set (integers ob)" for p
  proof -
    from that have "[p] \<in> set (cs @ return_test_integers ob)"
      by (simp add: return_test_integers_def)
    with s have "\<exists>l\<in>set [p]. (0 < l \<and> \<sigma> (nat l)) \<or> (l < 0 \<and> \<not> \<sigma> (nat (- l)))" by blast
    then show ?thesis by simp
  qed
  from v have len: "length (integers ob) = n"
    and sv: "\<forall>i<length (integers ob).
               integers ob ! i = int (Suc i) \<or> integers ob ! i = - int (Suc i)"
    by (simp_all add: all_vectors_iff)
  show "\<forall>c\<in>set cs. \<exists>l\<in>set c. l \<in> set (integers ob)"
  proof
    fix c assume c: "c \<in> set cs"
    with s obtain l where l: "l \<in> set c"
      "(0 < l \<and> \<sigma> (nat l)) \<or> (l < 0 \<and> \<not> \<sigma> (nat (- l)))" by auto
    from nof_vars_bound [OF c l(1)] n have b: "nat \<bar>l\<bar> \<le> n" by linarith
    from l(2) have nz: "0 < nat \<bar>l\<bar>" by linarith
    define i where "i = nat \<bar>l\<bar> - 1"
    from nz b len have i: "i < length (integers ob)" "int (Suc i) = \<bar>l\<bar>"
      by (simp_all add: i_def)
    define p where "p = integers ob ! i"
    from i(1) have pm: "p \<in> set (integers ob)" by (simp add: p_def)
    from sv i have pv: "p = \<bar>l\<bar> \<or> p = - \<bar>l\<bar>" by (auto simp: p_def)
    have "p = l"
    proof (rule ccontr)
      assume "p \<noteq> l"
      with pv l(2) have pl: "p = - l" by linarith
      from pin [OF pm] show False unfolding pl using l(2) by auto
    qed
    with pm l(1) show "\<exists>l\<in>set c. l \<in> set (integers ob)" by blast
  qed
qed

end
